theory Spec2Isabelle
  imports Complex_Main "HOL-Library.Word"
begin

unbundle bit_operations_syntax

section \<open>JavaScript values used by the OTP engine\<close>

text \<open>
  The engine (src/src/index.ts, with the helpers \<open>numberToWordArray\<close> and
  \<open>wordArrayToBytes\<close>) computes with JavaScript numbers. Timestamps, periods, windows,
  digit counts and bytes are modelled by the integers they hold (\<open>int\<close>, \<open>nat\<close> for the
  digit count); the operands of the bitwise operators are 32-bit words, as the language
  converts them. A counter is a \<open>number\<close>: an integer, or one of the three values that
  \<open>Math.floor(timestamp / 1000 / period)\<close> yields when the period is zero. Fractional
  counters, periods and windows are outside this model, and so is the rounding of the
  arithmetic on doubles: the operations are those of the integers, which they are on
  doubles as long as the magnitudes stay below \<open>2 ^ 53\<close>.
\<close>

datatype number = Num int | Infinity | NegInfinity | NaN

text \<open>
  A JavaScript number is a double. \<open>Num n\<close> stands for a number of the program only when
  a double holds \<open>n\<close> exactly, as it does every integer of magnitude up to \<open>2 ^ 53\<close>.
  \<open>number_of_integer\<close> is the number that an integer denotes: the nearest double, a tie
  going to the even 53-bit significand, and an infinity beyond the largest double.
  \<open>bit_width\<close> is the number of binary digits of a positive integer.
\<close>

function bit_width :: "int \<Rightarrow> nat" where
  "bit_width n = (if n \<le> 0 then 0 else Suc (bit_width (n div 2)))"
  by pat_completeness auto
termination
  by (relation "measure nat") auto

declare bit_width.simps [simp del]

definition round_to_double :: "int \<Rightarrow> int" where
  "round_to_double n =
     (let e = bit_width n - 53; q = n div 2 ^ e; r = n mod 2 ^ e
      in if 2 ^ e < 2 * r \<or> (2 * r = 2 ^ e \<and> odd q) then (q + 1) * 2 ^ e else q * 2 ^ e)"

definition number_of_integer :: "int \<Rightarrow> number" where
  "number_of_integer n =
     (if 2 ^ 1024 \<le> round_to_double \<bar>n\<bar> then (if 0 < n then Infinity else NegInfinity)
      else Num (sgn n * round_to_double \<bar>n\<bar>))"

text \<open>\<open>xs[i]\<close>: an index outside the array reads \<open>undefined\<close> (here \<open>None\<close>).\<close>

definition js_nth :: "'a list \<Rightarrow> int \<Rightarrow> 'a option" where
  "js_nth xs i = (if 0 \<le> i \<and> i < int (length xs) then Some (xs ! nat i) else None)"

text \<open>
  The conversion a bitwise operator applies to its operand: \<open>undefined\<close> and \<open>NaN\<close>
  (both \<open>None\<close>) become 0, an integer is taken modulo \<open>2 ^ 32\<close>.
\<close>

fun ToInt32 :: "int option \<Rightarrow> 32 word" where
  "ToInt32 None = 0"
| "ToInt32 (Some v) = word_of_int v"

fun word_or_undefined :: "32 word option \<Rightarrow> 32 word" where
  "word_or_undefined None = 0"
| "word_or_undefined (Some w) = w"

text \<open>The remainder operator \<open>%\<close> on integers: the result has the sign of the dividend.\<close>

definition js_rem :: "int \<Rightarrow> int \<Rightarrow> int" where
  "js_rem a b = sgn a * (\<bar>a\<bar> mod \<bar>b\<bar>)"

text \<open>
  \<open>Number.prototype.toString(radix)\<close> on a non-negative integer, and on a number: the
  exact digits, which are the ones an engine prints for an integer below \<open>2 ^ 53\<close>;
  beyond, the language leaves the digits of a radix other than 10 to the implementation.
\<close>

definition digit_char :: "int \<Rightarrow> char" where
  "digit_char d = ''0123456789abcdefghijklmnopqrstuvwxyz'' ! nat d"

function radix_digits :: "int \<Rightarrow> int \<Rightarrow> string" where
  "radix_digits r n =
     (if n < r \<or> r < 2 then [digit_char n]
      else radix_digits r (n div r) @ [digit_char (n mod r)])"
  by pat_completeness auto
termination
proof (relation "measure (\<lambda>(r, n). nat n)")
  show "wf (measure (\<lambda>(r, n). nat n))" by simp
next
  fix r n :: int
  assume "\<not> (n < r \<or> r < 2)"
  then have "0 < n" and "1 < r" by auto
  then have "n div r < n" by (rule int_div_less_self)
  with \<open>0 < n\<close> show "((r, n div r), (r, n)) \<in> measure (\<lambda>(r, n). nat n)" by simp
qed

declare radix_digits.simps [simp del]

definition toString :: "int \<Rightarrow> number \<Rightarrow> string" where
  "toString radix x =
     (case x of
        Num n \<Rightarrow> (if n < 0 then CHR ''-'' # radix_digits radix (- n) else radix_digits radix n)
      | Infinity \<Rightarrow> ''Infinity''
      | NegInfinity \<Rightarrow> ''-Infinity''
      | NaN \<Rightarrow> ''NaN'')"

text \<open>\<open>String.prototype.padStart(targetLength, padString)\<close> with a one-character pad.\<close>

definition padStart :: "nat \<Rightarrow> char \<Rightarrow> string \<Rightarrow> string" where
  "padStart n c s = replicate (n - length s) c @ s"

text \<open>
  \<open>parseInt(s, 16)\<close>: an optional sign, an optional \<open>0x\<close>, then the longest run of
  hexadecimal digits; \<open>NaN\<close> (\<open>None\<close>) when that run is empty. Leading white space, which
  \<open>parseInt\<close> skips, does not occur in the strings of this program.
\<close>

definition hex_digit_value :: "char \<Rightarrow> int option" where
  "hex_digit_value c =
     (let n = int (of_char c) in
      if 48 \<le> n \<and> n \<le> 57 then Some (n - 48)
      else if 97 \<le> n \<and> n \<le> 102 then Some (n - 87)
      else if 65 \<le> n \<and> n \<le> 70 then Some (n - 55)
      else None)"

definition parseInt16 :: "string \<Rightarrow> int option" where
  "parseInt16 s =
     (let signed = (s \<noteq> [] \<and> (hd s = CHR ''-'' \<or> hd s = CHR ''+''));
          negative = (s \<noteq> [] \<and> hd s = CHR ''-'');
          r = (if signed then tl s else s);
          body = (if take 2 r = ''0x'' \<or> take 2 r = ''0X'' then drop 2 r else r);
          ds = takeWhile (\<lambda>c. hex_digit_value c \<noteq> None) body
      in if ds = [] then None
         else Some ((if negative then - 1 else 1)
                      * foldl (\<lambda>a c. 16 * a + the (hex_digit_value c)) 0 ds))"

section \<open>The word arrays of crypto-js\<close>

text \<open>
  A \<open>WordArray\<close> holds 32-bit words and a count of significant bytes. \<open>sigBytes\<close> is a
  JavaScript number: \<open>Hex.parse\<close> sets it to half the length of its string, which is not
  an integer for a string of odd length.
\<close>

record wordarray =
  words :: "32 word list"
  sigBytes :: real

text \<open>\<open>words[k] |= v\<close> on an array that the loops below fill from index 0 upwards.\<close>

definition or_assign :: "32 word list \<Rightarrow> nat \<Rightarrow> 32 word \<Rightarrow> 32 word list" where
  "or_assign ws k v =
     (if k < length ws then ws[k := (ws ! k) OR v]
      else ws @ replicate (k - length ws) 0 @ [v])"

text \<open>
  Modelled from the spec: \<open>CryptoJS.enc.Hex.parse\<close> is a function of the crypto-js
  dependency, not under src/. The spec's step "encode the counter as an 8-byte big-endian
  integer" is carried out by it: for every second index \<open>i\<close> of the string,
  \<open>words[i >>> 3] |= parseInt(hexStr.substr(i, 2), 16) << (24 - (i % 8) * 4)\<close>, and the
  result has \<open>hexStr.length / 2\<close> significant bytes.
\<close>

definition Hex_parse :: "string \<Rightarrow> wordarray" where
  "Hex_parse hexStr =
     \<lparr>words = fold (\<lambda>i ws. or_assign ws (i div 8)
                 (push_bit (24 - (i mod 8) * 4) (ToInt32 (parseInt16 (take 2 (drop i hexStr))))))
               (map (\<lambda>j. 2 * j) [0..<(length hexStr + 1) div 2]) [],
      sigBytes = real (length hexStr) / 2\<rparr>"

text \<open>
  Modelled from the spec: \<open>CryptoJS.lib.WordArray.create\<close> on a \<open>Uint8Array\<close>, also of
  the crypto-js dependency: the raw key bytes of the secret, packed big-endian, four to a
  word (\<open>words[i >>> 2] |= typedArray[i] << (24 - (i % 4) * 8)\<close>).
\<close>

definition WordArray_create :: "8 word list \<Rightarrow> wordarray" where
  "WordArray_create typedArray =
     \<lparr>words = fold (\<lambda>i ws. or_assign ws (i div 4)
                 (push_bit (24 - (i mod 4) * 8) (ucast (typedArray ! i))))
               [0..<length typedArray] [],
      sigBytes = real (length typedArray)\<rparr>"

text \<open>src/src/utils.ts: \<open>numberToWordArray\<close> and \<open>wordArrayToBytes\<close>.\<close>

definition numberToWordArray :: "number \<Rightarrow> wordarray" where
  "numberToWordArray counter =
     (let hexCounter = padStart 16 CHR ''0'' (toString 16 counter)
      in Hex_parse hexCounter)"

definition wordArrayToBytes :: "wordarray \<Rightarrow> int list" where
  "wordArrayToBytes wordArray =
     map (\<lambda>i. uint (drop_bit (24 - (i mod 4) * 8)
                       (word_or_undefined (js_nth (words wordArray) (int (i div 4))))
                     AND 0xff))
       [0..<nat \<lceil>sigBytes wordArray\<rceil>]"

section \<open>The collaborators\<close>

text \<open>
  Modelled from the spec: the secret codec (\<open>@se-oss/base32\<close>) and the keyed-hash
  primitives (\<open>CryptoJS.HmacSHA1\<close>, \<open>HmacSHA256\<close>, \<open>HmacSHA512\<close>) are npm dependencies,
  not under src/; section 6 of the spec treats them as given interfaces. The engine takes
  them as a parameter. \<open>base32_decode\<close> yields \<open>None\<close> where the codec throws on text it
  cannot decode; a keyed hash takes the message and then the key, as crypto-js does.
\<close>

record modules =
  base32_encode :: "8 word list \<Rightarrow> string"
  base32_decode :: "string \<Rightarrow> 8 word list option"
  CryptoJS_HmacSHA1 :: "wordarray \<Rightarrow> wordarray \<Rightarrow> wordarray"
  CryptoJS_HmacSHA256 :: "wordarray \<Rightarrow> wordarray \<Rightarrow> wordarray"
  CryptoJS_HmacSHA512 :: "wordarray \<Rightarrow> wordarray \<Rightarrow> wordarray"

datatype error = InvalidAlgorithmError string | CodecError

section \<open>The OTP class\<close>

text \<open>The value of the private field \<open>#hash\<close>: one of the three functions of crypto-js.\<close>

datatype Hash = HmacSHA1 | HmacSHA256 | HmacSHA512

fun apply_hash :: "modules \<Rightarrow> Hash \<Rightarrow> wordarray \<Rightarrow> wordarray \<Rightarrow> wordarray" where
  "apply_hash m HmacSHA1 = CryptoJS_HmacSHA1 m"
| "apply_hash m HmacSHA256 = CryptoJS_HmacSHA256 m"
| "apply_hash m HmacSHA512 = CryptoJS_HmacSHA512 m"

text \<open>
  The private fields of an instance; the getters \<open>algorithm\<close>, \<open>digits\<close>, \<open>secret\<close> and
  \<open>period\<close> of the class return them and are the selectors of the record. The algorithm
  is a string: the constructor checks it at run time.
\<close>

record OTP =
  algorithm :: string
  digits :: nat
  secret :: string
  period :: int
  hash :: Hash

text \<open>src/src/typings.ts. An optional field is an \<open>option\<close>.\<close>

record HOTPOptions =
  counter :: number

record TOTPOptions =
  opt_period :: "int option"
  timestamp :: "int option"

record OTPGeneratorOptions =
  gen_algorithm :: "string option"
  gen_digits :: "nat option"
  gen_period :: "int option"
  gen_secret :: "string option"

record TOTPVerifyOptions = TOTPOptions +
  code :: string
  window :: "int option"

record HOTPVerify = HOTPOptions +
  hotp_code :: string

text \<open>\<open>setHash\<close>: the switch on the algorithm, throwing on any other string.\<close>

definition setHash :: "OTP \<Rightarrow> error + OTP" where
  "setHash this =
     (if algorithm this = ''SHA1'' then Inr (this\<lparr>hash := HmacSHA1\<rparr>)
      else if algorithm this = ''SHA256'' then Inr (this\<lparr>hash := HmacSHA256\<rparr>)
      else if algorithm this = ''SHA512'' then Inr (this\<lparr>hash := HmacSHA512\<rparr>)
      else Inl (InvalidAlgorithmError (algorithm this)))"

text \<open>
  \<open>generateSecret\<close>: \<open>randomBytes\<close> is the word array that
  \<open>CryptoJS.lib.WordArray.random(20)\<close> returned; its bytes are extracted by the same
  expression as in \<open>wordArrayToBytes\<close> and stored in a \<open>Uint8Array\<close>.
\<close>

definition generateSecret :: "modules \<Rightarrow> wordarray \<Rightarrow> string" where
  "generateSecret m randomBytes =
     base32_encode m
       (map (\<lambda>i. ucast (drop_bit (24 - (i mod 4) * 8)
                          (word_or_undefined (js_nth (words randomBytes) (int (i div 4))))
                        AND (0xff :: 32 word)))
          [0..<nat \<lceil>sigBytes randomBytes\<rceil>])"

text \<open>
  The constructor; \<open>??\<close> takes the default where the option is absent. The field
  initialiser sets \<open>#hash\<close> to \<open>HmacSHA1\<close> before \<open>setHash\<close> runs.
\<close>

definition OTP_constructor :: "modules \<Rightarrow> wordarray \<Rightarrow> OTPGeneratorOptions \<Rightarrow> error + OTP" where
  "OTP_constructor m randomBytes options =
     setHash
       \<lparr>algorithm = (case gen_algorithm options of Some a \<Rightarrow> a | None \<Rightarrow> ''SHA1''),
        digits = (case gen_digits options of Some d \<Rightarrow> d | None \<Rightarrow> 6),
        secret = (case gen_secret options of Some s \<Rightarrow> s | None \<Rightarrow> generateSecret m randomBytes),
        period = (case gen_period options of Some p \<Rightarrow> p | None \<Rightarrow> 30),
        hash = HmacSHA1\<rparr>"

definition generate :: "modules \<Rightarrow> wordarray \<Rightarrow> OTPGeneratorOptions \<Rightarrow> error + OTP" where
  "generate m randomBytes options = OTP_constructor m randomBytes options"

text \<open>
  \<open>hotp\<close>. A local variable that shares its name with a field of a record is primed.
  The only failure is the one \<open>base32.decode\<close> raises. \<open>offset\<close> and the code are results
  of bitwise operators, hence signed 32-bit values. \<open>10 ** digits\<close> is a double: it is
  exact up to \<open>10 ^ 22\<close> and beyond that still larger than every 32-bit value, so the
  remainder is the one of the integers.
\<close>

definition hotp :: "modules \<Rightarrow> OTP \<Rightarrow> HOTPOptions \<Rightarrow> error + string" where
  "hotp m this options =
     (let counter' = HOTPOptions.counter options in
      case base32_decode m (secret this) of
        None \<Rightarrow> Inl CodecError
      | Some decoded \<Rightarrow>
          let key = WordArray_create decoded;
              counterWordArray = numberToWordArray counter';
              hmac = apply_hash m (hash this) counterWordArray key;
              hmacBytes = wordArrayToBytes hmac;
              offset = sint (ToInt32 (js_nth hmacBytes (int (length hmacBytes) - 1)) AND 0x0f);
              code' = js_rem
                (sint (push_bit 24 (ToInt32 (js_nth hmacBytes offset) AND 0x7f)
                       OR push_bit 16 (ToInt32 (js_nth hmacBytes (offset + 1)) AND 0xff)
                       OR push_bit 8 (ToInt32 (js_nth hmacBytes (offset + 2)) AND 0xff)
                       OR (ToInt32 (js_nth hmacBytes (offset + 3)) AND 0xff)))
                (10 ^ digits this)
          in Inr (padStart (digits this) CHR ''0'' (toString 10 (Num code'))))"

text \<open>
  \<open>Math.floor(timestamp / 1000 / period)\<close>: division by zero gives an infinity, or
  \<open>NaN\<close> for \<open>0 / 0\<close>; otherwise the floor of the quotient, whatever the signs.
\<close>

definition floor_div :: "int \<Rightarrow> int \<Rightarrow> number" where
  "floor_div t p =
     (if p = 0 then (if 0 < t then Infinity else if t < 0 then NegInfinity else NaN)
      else Num (t div (1000 * p)))"

text \<open>\<open>counter + i\<close> for an integer \<open>i\<close>.\<close>

fun number_add :: "number \<Rightarrow> int \<Rightarrow> number" where
  "number_add (Num n) i = Num (n + i)"
| "number_add x i = x"

text \<open>
  \<open>totp\<close>. \<open>now\<close> is the reading of \<open>Date.now()\<close>. The instance is returned as the call
  leaves it, also when \<open>hotp\<close> throws: the assignment to \<open>#period\<close> comes first.
\<close>

definition totp :: "modules \<Rightarrow> int \<Rightarrow> OTP \<Rightarrow> TOTPOptions \<Rightarrow> (error + string) \<times> OTP" where
  "totp m now this options =
     (let timestamp' = (case timestamp options of Some t \<Rightarrow> t | None \<Rightarrow> now);
          this' = (case opt_period options of
                     Some p \<Rightarrow> if p \<noteq> 0 then this\<lparr>period := p\<rparr> else this
                   | None \<Rightarrow> this);
          counter' = floor_div timestamp' (period this')
      in (hotp m this' \<lparr>counter = counter'\<rparr>, this'))"

definition hotpVerify :: "modules \<Rightarrow> OTP \<Rightarrow> HOTPVerify \<Rightarrow> error + bool" where
  "hotpVerify m this options =
     (let code' = hotp_code options;
          counter' = HOTPOptions.counter options
      in case hotp m this \<lparr>counter = counter'\<rparr> of
           Inl e \<Rightarrow> Inl e
         | Inr otp \<Rightarrow> Inr (otp = code'))"

text \<open>The loop of \<open>totpVerify\<close>, from \<open>i\<close> up to \<open>window\<close>.\<close>

function totpVerify_loop :: "modules \<Rightarrow> OTP \<Rightarrow> string \<Rightarrow> int \<Rightarrow> int \<Rightarrow> int \<Rightarrow> error + bool" where
  "totpVerify_loop m this code' timestamp' window' i =
     (if i \<le> window' then
        (let counter' = number_add (floor_div timestamp' (period this)) i
         in case hotp m this \<lparr>counter = counter'\<rparr> of
              Inl e \<Rightarrow> Inl e
            | Inr otp \<Rightarrow>
                if otp = code' then Inr True
                else totpVerify_loop m this code' timestamp' window' (i + 1))
      else Inr False)"
  by pat_completeness auto
termination
  by (relation "measure (\<lambda>(m, this, c, t, w, i). nat (w + 1 - i))") auto

declare totpVerify_loop.simps [simp del]

text \<open>
  \<open>totpVerify\<close> reads \<open>code\<close>, \<open>timestamp\<close> and \<open>window\<close> of its options and assigns to
  no field; the instance is returned as it was.
\<close>

definition totpVerify :: "modules \<Rightarrow> int \<Rightarrow> OTP \<Rightarrow> TOTPVerifyOptions \<Rightarrow> (error + bool) \<times> OTP" where
  "totpVerify m now this options =
     (let code' = code options;
          timestamp' = (case timestamp options of Some t \<Rightarrow> t | None \<Rightarrow> now);
          window' = (case window options of Some w \<Rightarrow> w | None \<Rightarrow> 1)
      in (totpVerify_loop m this code' timestamp' window' (- window'), this))"

section \<open>Standard models of the collaborators\<close>

text \<open>
  Modelled from the spec: section 6 asks of the keyed-hash primitive "standard
  HMAC-SHA1/256/512 semantics, digest length 20/32/64 bytes", and of the secret codec
  the base32 transport form. The definitions below follow the standards themselves
  (FIPS 180-4 for the three hash functions, RFC 2104 for HMAC, RFC 4648 for base32);
  the code of crypto-js and of the codec is not under src/. Words are integers with the
  reduction modulo \<open>2 ^ w\<close> written out.
\<close>

definition rotl :: "nat \<Rightarrow> nat \<Rightarrow> int \<Rightarrow> int" where
  "rotl w n x = (x * 2 ^ n) mod 2 ^ w + x div 2 ^ (w - n)"

definition rotr :: "nat \<Rightarrow> nat \<Rightarrow> int \<Rightarrow> int" where
  "rotr w n x = x div 2 ^ n + (x mod 2 ^ n) * 2 ^ (w - n)"

definition be_value :: "int list \<Rightarrow> int" where
  "be_value bs = foldl (\<lambda>a b. a * 256 + b) 0 bs"

definition be_bytes :: "nat \<Rightarrow> int \<Rightarrow> int list" where
  "be_bytes n x = map (\<lambda>j. (x div 256 ^ (n - 1 - j)) mod 256) [0..<n]"

text \<open>The sixteen big-endian words, of \<open>n\<close> bytes each, of a block.\<close>

definition block_words :: "nat \<Rightarrow> int list \<Rightarrow> int list" where
  "block_words n block = map (\<lambda>j. be_value (take n (drop (j * n) block))) [0..<16]"

text \<open>
  Padding: the byte \<open>0x80\<close>, zero bytes up to a multiple of the block size \<open>bs\<close>, the
  last \<open>lb\<close> bytes holding the length of the message in bits.
\<close>

definition md_pad :: "nat \<Rightarrow> nat \<Rightarrow> int list \<Rightarrow> int list" where
  "md_pad bs lb msg =
     msg @ [128] @ map (\<lambda>_. 0) [0..<(bs - (length msg + 1 + lb) mod bs) mod bs]
       @ be_bytes lb (int (length msg) * 8)"

text \<open>Hashing block after block; the list counts the blocks that remain.\<close>

fun md_blocks :: "(int list \<Rightarrow> int list \<Rightarrow> int list) \<Rightarrow> nat \<Rightarrow> nat list \<Rightarrow> int list \<Rightarrow> int list \<Rightarrow> int list" where
  "md_blocks f bs [] h padded = h"
| "md_blocks f bs (i # is) h padded = md_blocks f bs is (f h (take bs padded)) (drop bs padded)"

subsection \<open>SHA-1\<close>

text \<open>
  Modelled from the spec: the hash function under \<open>CryptoJS.HmacSHA1\<close>, as FIPS 180-4
  defines it: 80 rounds on five 32-bit words, over the message schedule of each block.
\<close>

definition sha1_f :: "nat \<Rightarrow> int \<Rightarrow> int \<Rightarrow> int \<Rightarrow> int" where
  "sha1_f t b c d =
     (if t < 20 then (b AND c) OR ((4294967295 - b) AND d)
      else if t < 40 then b XOR c XOR d
      else if t < 60 then (b AND c) OR (b AND d) OR (c AND d)
      else b XOR c XOR d)"

definition sha1_K :: "nat \<Rightarrow> int" where
  "sha1_K t =
     (if t < 20 then 0x5A827999 else if t < 40 then 0x6ED9EBA1
      else if t < 60 then 0x8F1BBCDC else 0xCA62C1D6)"

fun sha1_rounds :: "nat \<Rightarrow> int list \<Rightarrow> int \<Rightarrow> int \<Rightarrow> int \<Rightarrow> int \<Rightarrow> int \<Rightarrow> int list" where
  "sha1_rounds t [] a b c d e = [a, b, c, d, e]"
| "sha1_rounds t (x # xs) a b c d e =
     sha1_rounds (t + 1) xs
       ((rotl 32 5 a + sha1_f t b c d + e + sha1_K t + x) mod 4294967296)
       a (rotl 32 30 b) c d"

fun sha1_schedule :: "nat list \<Rightarrow> int list \<Rightarrow> int list" where
  "sha1_schedule [] W = W"
| "sha1_schedule (t # ts) W =
     sha1_schedule ts
       (W @ [rotl 32 1 (W ! (t - 3) XOR W ! (t - 8) XOR W ! (t - 14) XOR W ! (t - 16))])"

definition sha1_block :: "int list \<Rightarrow> int list \<Rightarrow> int list" where
  "sha1_block h block =
     map2 (\<lambda>x y. (x + y) mod 4294967296) h
       (sha1_rounds 0 (sha1_schedule [16..<80] (block_words 4 block))
          (h ! 0) (h ! 1) (h ! 2) (h ! 3) (h ! 4))"

definition sha1 :: "int list \<Rightarrow> int list" where
  "sha1 msg =
     concat (map (be_bytes 4)
       (md_blocks sha1_block 64 [0..<length (md_pad 64 8 msg) div 64]
          [0x67452301, 0xEFCDAB89, 0x98BADCFE, 0x10325476, 0xC3D2E1F0] (md_pad 64 8 msg)))"

subsection \<open>SHA-256 and SHA-512\<close>

text \<open>
  Modelled from the spec: the hash functions under \<open>CryptoJS.HmacSHA256\<close> and
  \<open>CryptoJS.HmacSHA512\<close>, as FIPS 180-4 defines them.
  The two functions differ in the word size \<open>w\<close>, the rotation amounts and the
  constants. \<open>S0\<close>, \<open>S1\<close> are the amounts of the upper-case sigma functions, \<open>s0\<close>, \<open>s1\<close>
  those of the lower-case ones, whose third amount is a shift.
\<close>

definition sha2_Sigma :: "nat \<Rightarrow> nat list \<Rightarrow> int \<Rightarrow> int" where
  "sha2_Sigma w r x = rotr w (r ! 0) x XOR rotr w (r ! 1) x XOR rotr w (r ! 2) x"

definition sha2_sigma :: "nat \<Rightarrow> nat list \<Rightarrow> int \<Rightarrow> int" where
  "sha2_sigma w r x = rotr w (r ! 0) x XOR rotr w (r ! 1) x XOR x div 2 ^ (r ! 2)"

definition sha2_Ch :: "nat \<Rightarrow> int \<Rightarrow> int \<Rightarrow> int \<Rightarrow> int" where
  "sha2_Ch w x y z = (x AND y) XOR ((2 ^ w - 1 - x) AND z)"

definition sha2_Maj :: "int \<Rightarrow> int \<Rightarrow> int \<Rightarrow> int" where
  "sha2_Maj x y z = (x AND y) XOR (x AND z) XOR (y AND z)"

fun sha2_schedule :: "nat \<Rightarrow> nat list \<Rightarrow> nat list \<Rightarrow> nat list \<Rightarrow> int list \<Rightarrow> int list" where
  "sha2_schedule w s0 s1 [] W = W"
| "sha2_schedule w s0 s1 (t # ts) W =
     sha2_schedule w s0 s1 ts
       (W @ [(sha2_sigma w s1 (W ! (t - 2)) + W ! (t - 7)
              + sha2_sigma w s0 (W ! (t - 15)) + W ! (t - 16)) mod 2 ^ w])"

fun sha2_rounds :: "nat \<Rightarrow> nat list \<Rightarrow> nat list \<Rightarrow> (int \<times> int) list \<Rightarrow> int list \<Rightarrow> int list" where
  "sha2_rounds w S0 S1 [] v = v"
| "sha2_rounds w S0 S1 ((k, x) # kxs) v =
     (let T1 = v ! 7 + sha2_Sigma w S1 (v ! 4) + sha2_Ch w (v ! 4) (v ! 5) (v ! 6) + k + x;
          T2 = sha2_Sigma w S0 (v ! 0) + sha2_Maj (v ! 0) (v ! 1) (v ! 2)
      in sha2_rounds w S0 S1 kxs
           [(T1 + T2) mod 2 ^ w, v ! 0, v ! 1, v ! 2, (v ! 3 + T1) mod 2 ^ w, v ! 4, v ! 5, v ! 6])"

text \<open>
  The round constants: the first 32, respectively 64, bits of the fractional parts of
  the cube roots of the first 64, respectively 80, primes, written in decimal. The
  initial hash values in \<open>sha256\<close> and \<open>sha512\<close> are those of the square roots of the
  first 8 primes.
\<close>

definition sha256_K :: "int list" where
  "sha256_K =
    [1116352408, 1899447441, 3049323471, 3921009573, 961987163, 1508970993,
     2453635748, 2870763221, 3624381080, 310598401, 607225278, 1426881987,
     1925078388, 2162078206, 2614888103, 3248222580, 3835390401, 4022224774,
     264347078, 604807628, 770255983, 1249150122, 1555081692, 1996064986,
     2554220882, 2821834349, 2952996808, 3210313671, 3336571891, 3584528711,
     113926993, 338241895, 666307205, 773529912, 1294757372, 1396182291,
     1695183700, 1986661051, 2177026350, 2456956037, 2730485921, 2820302411,
     3259730800, 3345764771, 3516065817, 3600352804, 4094571909, 275423344,
     430227734, 506948616, 659060556, 883997877, 958139571, 1322822218,
     1537002063, 1747873779, 1955562222, 2024104815, 2227730452, 2361852424,
     2428436474, 2756734187, 3204031479, 3329325298]"

definition sha512_K :: "int list" where
  "sha512_K =
    [4794697086780616226, 8158064640168781261, 13096744586834688815, 16840607885511220156,
     4131703408338449720, 6480981068601479193, 10538285296894168987, 12329834152419229976,
     15566598209576043074, 1334009975649890238, 2608012711638119052, 6128411473006802146,
     8268148722764581231, 9286055187155687089, 11230858885718282805, 13951009754708518548,
     16472876342353939154, 17275323862435702243, 1135362057144423861, 2597628984639134821,
     3308224258029322869, 5365058923640841347, 6679025012923562964, 8573033837759648693,
     10970295158949994411, 12119686244451234320, 12683024718118986047, 13788192230050041572,
     14330467153632333762, 15395433587784984357, 489312712824947311, 1452737877330783856,
     2861767655752347644, 3322285676063803686, 5560940570517711597, 5996557281743188959,
     7280758554555802590, 8532644243296465576, 9350256976987008742, 10552545826968843579,
     11727347734174303076, 12113106623233404929, 14000437183269869457, 14369950271660146224,
     15101387698204529176, 15463397548674623760, 17586052441742319658, 1182934255886127544,
     1847814050463011016, 2177327727835720531, 2830643537854262169, 3796741975233480872,
     4115178125766777443, 5681478168544905931, 6601373596472566643, 7507060721942968483,
     8399075790359081724, 8693463985226723168, 9568029438360202098, 10144078919501101548,
     10430055236837252648, 11840083180663258601, 13761210420658862357, 14299343276471374635,
     14566680578165727644, 15097957966210449927, 16922976911328602910, 17689382322260857208,
     500013540394364858, 748580250866718886, 1242879168328830382, 1977374033974150939,
     2944078676154940804, 3659926193048069267, 4368137639120453308, 4836135668995329356,
     5532061633213252278, 6448918945643986474, 6902733635092675308, 7801388544844847127]"

definition sha256_block :: "int list \<Rightarrow> int list \<Rightarrow> int list" where
  "sha256_block h block =
     map2 (\<lambda>x y. (x + y) mod 2 ^ 32) h
       (sha2_rounds 32 [2, 13, 22] [6, 11, 25]
          (zip sha256_K (sha2_schedule 32 [7, 18, 3] [17, 19, 10] [16..<64] (block_words 4 block))) h)"

definition sha256 :: "int list \<Rightarrow> int list" where
  "sha256 msg =
     concat (map (be_bytes 4)
       (md_blocks sha256_block 64 [0..<length (md_pad 64 8 msg) div 64]
          [1779033703, 3144134277, 1013904242, 2773480762, 1359893119, 2600822924, 528734635, 1541459225]
          (md_pad 64 8 msg)))"

definition sha512_block :: "int list \<Rightarrow> int list \<Rightarrow> int list" where
  "sha512_block h block =
     map2 (\<lambda>x y. (x + y) mod 2 ^ 64) h
       (sha2_rounds 64 [28, 34, 39] [14, 18, 41]
          (zip sha512_K (sha2_schedule 64 [1, 8, 7] [19, 61, 6] [16..<80] (block_words 8 block))) h)"

definition sha512 :: "int list \<Rightarrow> int list" where
  "sha512 msg =
     concat (map (be_bytes 8)
       (md_blocks sha512_block 128 [0..<length (md_pad 128 16 msg) div 128]
          [7640891576956012808, 13503953896175478587, 4354685564936845355, 11912009170470909681,
           5840696475078001361, 11170449401992604703, 2270897969802886507, 6620516959819538809]
          (md_pad 128 16 msg)))"

subsection \<open>HMAC\<close>

text \<open>
  Modelled from the spec: the keyed hash of section 6,
  RFC 2104 with block size \<open>bs\<close>: a key longer than a block is hashed first, the key is
  filled with zero bytes to a block, and the hash is applied twice.
\<close>

definition hmac :: "(int list \<Rightarrow> int list) \<Rightarrow> nat \<Rightarrow> int list \<Rightarrow> int list \<Rightarrow> int list" where
  "hmac H bs key msg =
     (let k0 = (if bs < length key then H key else key);
          k = k0 @ map (\<lambda>_. 0) [0..<bs - length k0]
      in H (map (\<lambda>b. b XOR 0x5c) k @ H (map (\<lambda>b. b XOR 0x36) k @ msg)))"

text \<open>
  The functions of crypto-js take the message and the key as word arrays and return the
  digest as one.
\<close>

definition std_Hmac :: "(int list \<Rightarrow> int list) \<Rightarrow> nat \<Rightarrow> wordarray \<Rightarrow> wordarray \<Rightarrow> wordarray" where
  "std_Hmac H bs message key =
     WordArray_create (map word_of_int (hmac H bs (wordArrayToBytes key) (wordArrayToBytes message)))"

subsection \<open>Base32\<close>

text \<open>
  Modelled from the spec: the secret codec of section 6, \<open>encode(bytes) -> text\<close> and
  \<open>decode(text) -> bytes\<close>, as RFC 4648 defines base32 (upper-case alphabet, \<open>=\<close>
  padding).
\<close>

definition base32_alphabet :: string where
  "base32_alphabet = ''ABCDEFGHIJKLMNOPQRSTUVWXYZ234567''"

definition base32_value :: "char \<Rightarrow> int option" where
  "base32_value c =
     (let n = int (of_char c) in
      if 65 \<le> n \<and> n \<le> 90 then Some (n - 65)
      else if 50 \<le> n \<and> n \<le> 55 then Some (n - 24)
      else None)"

text \<open>
  Decoding: \<open>buf\<close> holds the \<open>bits\<close> bits not yet emitted; bits left over at the end are
  dropped. A character outside the alphabet makes the codec throw; \<open>=\<close> may only fill
  the end.
\<close>

fun base32_decode_bits :: "string \<Rightarrow> int \<Rightarrow> nat \<Rightarrow> 8 word list option" where
  "base32_decode_bits [] buf bits = Some []"
| "base32_decode_bits (c # cs) buf bits =
     (case base32_value c of
        None \<Rightarrow> None
      | Some v \<Rightarrow>
          if 8 \<le> bits + 5
          then map_option ((#) (word_of_int ((buf * 32 + v) div 2 ^ (bits + 5 - 8))))
                 (base32_decode_bits cs ((buf * 32 + v) mod 2 ^ (bits + 5 - 8)) (bits + 5 - 8))
          else base32_decode_bits cs (buf * 32 + v) (bits + 5))"

definition std_base32_decode :: "string \<Rightarrow> 8 word list option" where
  "std_base32_decode s =
     (if list_all (\<lambda>c. c = CHR ''='') (dropWhile (\<lambda>c. c \<noteq> CHR ''='') s)
      then base32_decode_bits (takeWhile (\<lambda>c. c \<noteq> CHR ''='') s) 0 0
      else None)"

fun base32_encode_bits :: "8 word list \<Rightarrow> int \<Rightarrow> nat \<Rightarrow> string" where
  "base32_encode_bits [] buf bits =
     (if bits = 0 then [] else [base32_alphabet ! nat (buf * 2 ^ (5 - bits))])"
| "base32_encode_bits (b # bs) buf bits =
     (if 10 \<le> bits + 8
      then base32_alphabet ! nat ((buf * 256 + uint b) div 2 ^ (bits + 8 - 5))
           # base32_alphabet ! nat ((buf * 256 + uint b) mod 2 ^ (bits + 8 - 5) div 2 ^ (bits + 8 - 10))
           # base32_encode_bits bs ((buf * 256 + uint b) mod 2 ^ (bits + 8 - 10)) (bits + 8 - 10)
      else base32_alphabet ! nat ((buf * 256 + uint b) div 2 ^ (bits + 8 - 5))
           # base32_encode_bits bs ((buf * 256 + uint b) mod 2 ^ (bits + 8 - 5)) (bits + 8 - 5))"

definition std_base32_encode :: "8 word list \<Rightarrow> string" where
  "std_base32_encode bs =
     (let s = base32_encode_bits bs 0 0
      in s @ replicate ((8 - length s mod 8) mod 8) CHR ''='')"

definition std_modules :: modules where
  "std_modules =
     \<lparr>base32_encode = std_base32_encode,
      base32_decode = std_base32_decode,
      CryptoJS_HmacSHA1 = std_Hmac sha1 64,
      CryptoJS_HmacSHA256 = std_Hmac sha256 64,
      CryptoJS_HmacSHA512 = std_Hmac sha512 128\<rparr>"

section \<open>The spec's wording of the derivation, and the test configuration\<close>

text \<open>
  Section 4.2 of the spec, steps 2, 4 and 5, in its own words, for comparison with
  \<open>hotp\<close>: the counter as eight big-endian bytes, the offset as the low nibble of the last
  digest byte, the four bytes from the offset combined big-endian with the top bit of the
  first masked, and the value of a string of decimal digits.
\<close>

definition spec_counterBytes :: "int \<Rightarrow> int list" where
  "spec_counterBytes c = be_bytes 8 c"

definition spec_offset :: "int list \<Rightarrow> nat" where
  "spec_offset digest = nat (last digest AND 0x0F)"

definition spec_binCode :: "int list \<Rightarrow> int" where
  "spec_binCode digest =
     be_value [digest ! spec_offset digest AND 0x7F, digest ! (spec_offset digest + 1),
               digest ! (spec_offset digest + 2), digest ! (spec_offset digest + 3)]"

definition decimal_value :: "string \<Rightarrow> int" where
  "decimal_value s = foldl (\<lambda>a c. a * 10 + (int (of_char c) - 48)) 0 s"

text \<open>
  Lines 112 to 124 of src/src/index.ts, named for the proofs: the bytes of the digest
  that \<open>hotp\<close> computes for a decoded secret, and the number it reads from them.
\<close>

definition hotp_hmacBytes :: "modules \<Rightarrow> OTP \<Rightarrow> number \<Rightarrow> 8 word list \<Rightarrow> int list" where
  "hotp_hmacBytes m this c decoded =
     wordArrayToBytes (apply_hash m (hash this) (numberToWordArray c) (WordArray_create decoded))"

definition hotp_truncate :: "int list \<Rightarrow> int" where
  "hotp_truncate hmacBytes =
     (let offset = sint (ToInt32 (js_nth hmacBytes (int (length hmacBytes) - 1)) AND 0x0f)
      in sint (push_bit 24 (ToInt32 (js_nth hmacBytes offset) AND 0x7f)
               OR push_bit 16 (ToInt32 (js_nth hmacBytes (offset + 1)) AND 0xff)
               OR push_bit 8 (ToInt32 (js_nth hmacBytes (offset + 2)) AND 0xff)
               OR (ToInt32 (js_nth hmacBytes (offset + 3)) AND 0xff)))"

text \<open>
  The configuration of the tests (src/src/index.test.ts): the secret is the base32 text
  of the ASCII bytes \<open>12345678901234567890\<close>; \<open>rfc_otp d\<close> is the instance that
  \<open>new OTP({ secret, algorithm: 'SHA1', digits: d })\<close> constructs.
\<close>

definition rfc_secret :: string where
  "rfc_secret = ''GEZDGNBVGY3TQOJQGEZDGNBVGY3TQOJQ''"

definition rfc_key :: "8 word list" where
  "rfc_key = map of_char ''12345678901234567890''"

definition rfc_otp :: "nat \<Rightarrow> OTP" where
  "rfc_otp d = \<lparr>algorithm = ''SHA1'', digits = d, secret = rfc_secret, period = 30, hash = HmacSHA1\<rparr>"

definition no_random :: wordarray where
  "no_random = \<lparr>words = [], sigBytes = 0\<rparr>"

section \<open>Auxiliary lemmas\<close>

subsection \<open>Control flow of the methods\<close>

lemma hotp_eq:
  "hotp m this options =
     (case base32_decode m (secret this) of
        None \<Rightarrow> Inl CodecError
      | Some decoded \<Rightarrow>
          Inr (padStart (digits this) CHR ''0''
                 (toString 10 (Num (js_rem (hotp_truncate
                    (hotp_hmacBytes m this (counter options) decoded)) (10 ^ digits this))))))"
  by (simp add: hotp_def hotp_truncate_def hotp_hmacBytes_def Let_def split: option.split)

lemma hotp_returns:
  assumes "base32_decode m (secret this) = Some decoded"
  shows "\<exists>s. hotp m this options = Inr s"
  using assms by (simp add: hotp_eq)

lemma hotp_throws:
  assumes "base32_decode m (secret this) = None"
  shows "hotp m this options = Inl CodecError"
  using assms by (simp add: hotp_eq)

lemma hotp_period_irrelevant:
  "hotp m (this\<lparr>period := p\<rparr>) options = hotp m this options"
  by (simp add: hotp_eq hotp_hmacBytes_def split: option.split)

lemma atLeastAtMost_int_step: "i \<le> w \<Longrightarrow> {i..w} = insert i {i + 1..w}" for i w :: int
  by auto

lemma totpVerify_loop_decoded:
  assumes "base32_decode m (secret this) = Some decoded"
  shows "totpVerify_loop m this s t w i =
           Inr (\<exists>j\<in>{i..w}. hotp m this \<lparr>counter = number_add (floor_div t (period this)) j\<rparr> = Inr s)"
  using assms
proof (induction m this s t w i rule: totpVerify_loop.induct)
  case (1 m this s t w i)
  let ?h = "\<lambda>j. hotp m this \<lparr>counter = number_add (floor_div t (period this)) j\<rparr>"
  show ?case
  proof (cases "i \<le> w")
    case False
    then show ?thesis
      by (subst totpVerify_loop.simps) simp
  next
    case True
    from "1.prems" obtain otp where otp: "?h i = Inr otp"
      using hotp_returns by blast
    show ?thesis
    proof (cases "otp = s")
      case True
      with \<open>i \<le> w\<close> otp show ?thesis
        by (subst totpVerify_loop.simps) (auto simp del: totpVerify_loop.simps)
    next
      case False
      with True otp "1.prems" have
        "totpVerify_loop m this s t w (i + 1) = Inr (\<exists>j\<in>{i + 1..w}. ?h j = Inr s)"
        by (intro "1.IH") auto
      with \<open>i \<le> w\<close> otp False show ?thesis
        by (subst totpVerify_loop.simps)
           (simp del: totpVerify_loop.simps add: atLeastAtMost_int_step [of i w])
    qed
  qed
qed

lemma totpVerify_loop_undecoded:
  assumes "base32_decode m (secret this) = None"
  shows "totpVerify_loop m this s t w i = (if i \<le> w then Inl CodecError else Inr False)"
  using assms by (subst totpVerify_loop.simps) (simp add: hotp_throws del: totpVerify_loop.simps)

lemma totpVerify_loop_True_iff:
  "totpVerify_loop m this s t w i = Inr True \<longleftrightarrow>
     (\<exists>j\<in>{i..w}. hotp m this \<lparr>counter = number_add (floor_div t (period this)) j\<rparr> = Inr s)"
proof (cases "base32_decode m (secret this)")
  case None
  then show ?thesis
    by (simp add: totpVerify_loop_undecoded hotp_throws del: totpVerify_loop.simps)
next
  case (Some decoded)
  then show ?thesis
    by (simp add: totpVerify_loop_decoded del: totpVerify_loop.simps)
qed

lemma floor_div_pos:
  assumes "0 < p"
  shows "floor_div t p = Num \<lfloor>real_of_int t / 1000 / real_of_int p\<rfloor>"
proof -
  have "real_of_int t / 1000 / real_of_int p = real_of_int t / real_of_int (1000 * p)"
    by simp
  then have "\<lfloor>real_of_int t / 1000 / real_of_int p\<rfloor> = t div (1000 * p)"
    by (simp only: floor_divide_of_int_eq)
  with assms show ?thesis by (simp add: floor_div_def)
qed

subsection \<open>Dynamic truncation\<close>

lemma or_bytes_eq_sum:
  fixes a b c d :: int
  assumes "0 \<le> b" "b < 256" "0 \<le> c" "c < 256" "0 \<le> d" "d < 256"
  shows "push_bit 24 a OR push_bit 16 b OR push_bit 8 c OR d = ((a * 256 + b) * 256 + c) * 256 + d"
proof -
  have tb: "take_bit 8 d = d" "take_bit 8 c = c" "take_bit 8 b = b"
    using assms by (simp_all add: take_bit_int_eq_self)
  have 1: "concat_bit 8 d (concat_bit 8 c (concat_bit 8 b a)) = push_bit 24 a OR push_bit 16 b OR push_bit 8 c OR d"
    unfolding concat_bit_def tb
    by (simp add: push_bit_or push_bit_push_bit ac_simps)
  have 2: "concat_bit 8 d (concat_bit 8 c (concat_bit 8 b a)) = ((a * 256 + b) * 256 + c) * 256 + d"
    unfolding concat_bit_eq tb
    by (simp add: push_bit_eq_mult algebra_simps)
  from 1 2 show ?thesis by simp
qed

lemma and_255_byte:
  fixes b :: int
  assumes "0 \<le> b" "b < 256"
  shows "b AND 255 = b"
proof -
  have "b AND mask 8 = b"
    using assms by (simp add: take_bit_int_eq_self flip: take_bit_eq_mask)
  then show ?thesis by (simp add: mask_eq_exp_minus_1)
qed

lemma and_numeral_bounds:
  fixes b k :: int
  assumes "0 \<le> k"
  shows "0 \<le> b AND k" "b AND k \<le> k"
  using assms by (simp_all add: AND_upper2)

lemma sint_word_of_int_small:
  fixes v :: int
  assumes "0 \<le> v" "v < 2 ^ 31"
  shows "sint (word_of_int v :: 32 word) = v"
  using assms by (simp add: sint_sbintrunc' signed_take_bit_int_eq_self)

lemma js_nth_Some: "i < length xs \<Longrightarrow> js_nth xs (int i) = Some (xs ! i)"
  by (simp add: js_nth_def)

lemma js_nth_last: "xs \<noteq> [] \<Longrightarrow> js_nth xs (int (length xs) - 1) = Some (last xs)"
  by (cases xs rule: rev_cases) (simp_all add: js_nth_def nat_diff_distrib)

lemma hotp_truncate_eq:
  assumes bytes: "\<forall>b\<in>set digest. 0 \<le> b \<and> b < 256"
    and len: "spec_offset digest + 3 < length digest"
  shows "hotp_truncate digest = spec_binCode digest"
    and "0 \<le> spec_binCode digest" and "spec_binCode digest < 2 ^ 31"
proof -
  let ?o = "spec_offset digest"
  from len have ne: "digest \<noteq> []" by auto
  have off: "sint (ToInt32 (js_nth digest (int (length digest) - 1)) AND 0x0f) = int ?o"
  proof -
    have "(word_of_int (last digest) :: 32 word) AND 15 = word_of_int (last digest AND 15)"
      by (simp add: of_int_and_eq)
    moreover have "0 \<le> last digest AND 15" "last digest AND 15 \<le> 15"
      by (simp_all add: and_numeral_bounds)
    ultimately show ?thesis
      using ne by (simp add: js_nth_last sint_word_of_int_small spec_offset_def)
  qed
  define a where "a = digest ! ?o AND 127"
  define b where "b = digest ! (?o + 1)"
  define c where "c = digest ! (?o + 2)"
  define d where "d = digest ! (?o + 3)"
  have rng: "0 \<le> b" "b < 256" "0 \<le> c" "c < 256" "0 \<le> d" "d < 256"
    using bytes len by (simp_all add: b_def c_def d_def)
  have a: "0 \<le> a" "a \<le> 127"
    by (simp_all add: a_def and_numeral_bounds)
  have nth: "js_nth digest (int ?o) = Some (digest ! ?o)"
    "js_nth digest (int ?o + 1) = Some b"
    "js_nth digest (int ?o + 2) = Some c"
    "js_nth digest (int ?o + 3) = Some d"
    using len by (simp_all add: js_nth_def b_def c_def d_def nat_add_distrib)
  have wa: "(word_of_int (digest ! ?o) :: 32 word) AND 0x7f = word_of_int a"
    by (simp add: of_int_and_eq a_def)
  have wb: "(word_of_int x :: 32 word) AND 0xff = word_of_int x" if "0 \<le> x" "x < 256" for x
  proof -
    have "(word_of_int x :: 32 word) AND 0xff = word_of_int (x AND 255)"
      by (simp add: of_int_and_eq)
    with that show ?thesis by (simp add: and_255_byte)
  qed
  have w: "push_bit 24 ((word_of_int (digest ! ?o) :: 32 word) AND 0x7f)
             OR push_bit 16 (word_of_int b AND 0xff)
             OR push_bit 8 (word_of_int c AND 0xff)
             OR (word_of_int d AND 0xff)
           = word_of_int (push_bit 24 a OR push_bit 16 b OR push_bit 8 c OR d)"
    unfolding wa wb [OF rng(1,2)] wb [OF rng(3,4)] wb [OF rng(5,6)]
    by (simp only: of_int_or_eq of_int_push_bit)
  have v: "push_bit 24 a OR push_bit 16 b OR push_bit 8 c OR d = ((a * 256 + b) * 256 + c) * 256 + d"
    using rng by (rule or_bytes_eq_sum)
  have spec: "spec_binCode digest = ((a * 256 + b) * 256 + c) * 256 + d"
    by (simp add: spec_binCode_def be_value_def a_def b_def c_def d_def)
  show nonneg: "0 \<le> spec_binCode digest"
    using a rng by (simp add: spec)
  show less: "spec_binCode digest < 2 ^ 31"
    using a rng by (simp add: spec)
  show "hotp_truncate digest = spec_binCode digest"
    using nonneg less
    unfolding hotp_truncate_def Let_def off nth ToInt32.simps w v spec [symmetric]
    by (rule sint_word_of_int_small)
qed

lemma wordArrayToBytes_range:
  "\<forall>b\<in>set (wordArrayToBytes wa). 0 \<le> b \<and> b < 256"
proof -
  have "uint (x AND 255) < 256" for x :: "32 word"
  proof -
    have "uint (x AND 255) = uint x AND 255"
      by (simp add: uint_and)
    also have "\<dots> \<le> 255"
      by (rule and_numeral_bounds) simp
    finally show ?thesis by simp
  qed
  then show ?thesis
    by (auto simp: wordArrayToBytes_def)
qed

lemma hotp_truncate_bounds:
  "0 \<le> hotp_truncate hmacBytes" "hotp_truncate hmacBytes < 2 ^ 31"
proof -
  have nonneg: "0 \<le> sint w" if "\<not> bit w 31" for w :: "32 word"
    using that bit_last_iff [of w] by simp
  have top: "\<not> bit (push_bit 24 (x AND 0x7f) OR push_bit 16 (y AND 0xff)
                      OR push_bit 8 (z AND 0xff) OR (u AND 0xff)) 31" for x y z u :: "32 word"
    by (simp add: bit_simps)
  show "0 \<le> hotp_truncate hmacBytes"
    unfolding hotp_truncate_def Let_def by (rule nonneg) (rule top)
  show "hotp_truncate hmacBytes < 2 ^ 31"
    unfolding hotp_truncate_def Let_def using sint_lt [where 'a = 32] by simp
qed


subsection \<open>The counter as a word array\<close>

lemma digit_cases:
  fixes d :: int
  assumes "0 \<le> d" "d < 16"
  obtains "d = 0" | "d = 1" | "d = 2" | "d = 3" | "d = 4" | "d = 5" | "d = 6" | "d = 7"
    | "d = 8" | "d = 9" | "d = 10" | "d = 11" | "d = 12" | "d = 13" | "d = 14" | "d = 15"
proof -
  from assms have "d = 0 \<or> d = 1 \<or> d = 2 \<or> d = 3 \<or> d = 4 \<or> d = 5 \<or> d = 6 \<or> d = 7
    \<or> d = 8 \<or> d = 9 \<or> d = 10 \<or> d = 11 \<or> d = 12 \<or> d = 13 \<or> d = 14 \<or> d = 15"
    by arith
  with that show thesis by blast
qed

lemma hex_digit_value_digit_char:
  assumes "0 \<le> d" "d < 16"
  shows "hex_digit_value (digit_char d) = Some d"
  using assms by (rule digit_cases) (simp_all add: hex_digit_value_def digit_char_def)

lemma digit_char_not_sign:
  assumes "0 \<le> d" "d < 16"
  shows "digit_char d \<noteq> CHR ''-''" "digit_char d \<noteq> CHR ''+''"
    "digit_char d \<noteq> CHR ''x''" "digit_char d \<noteq> CHR ''X''"
  using assms by (rule digit_cases; simp add: digit_char_def)+

lemma digit_char_0: "digit_char 0 = CHR ''0''"
  by (simp add: digit_char_def)

lemma parseInt16_pair:
  assumes "0 \<le> a" "a < 16" "0 \<le> b" "b < 16"
  shows "parseInt16 [digit_char a, digit_char b] = Some (16 * a + b)"
  using assms
  by (simp add: parseInt16_def Let_def hex_digit_value_digit_char digit_char_not_sign)

lemma radix_digits_16_step:
  "16 \<le> n \<Longrightarrow> radix_digits 16 n = radix_digits 16 (n div 16) @ [digit_char (n mod 16)]"
  "n < 16 \<Longrightarrow> radix_digits 16 n = [digit_char n]"
  by (subst radix_digits.simps, simp)+

lemma div_16_power_step:
  assumes "k < n"
  shows "(c::int) div 16 div 16 ^ (n - 1 - k) = c div 16 ^ (n - k)"
proof -
  from assms have "n - k = Suc (n - 1 - k)" by simp
  then have "(16::int) ^ (n - k) = 16 * 16 ^ (n - 1 - k)" by simp
  then show ?thesis by (simp add: zdiv_zmult2_eq)
qed

lemma small_div_power:
  assumes "0 \<le> c" "c < 16" "k < n"
  shows "(c::int) div 16 ^ (n - k) = 0"
proof -
  from assms(3) have "(16::int) ^ 1 \<le> 16 ^ (n - k)"
    by (intro power_increasing) auto
  with assms(1,2) have "c < 16 ^ (n - k)" by simp
  with assms(1) show ?thesis by (rule div_pos_pos_trivial)
qed

lemma div_16_less:
  assumes "c < 16 * M"
  shows "(c::int) div 16 < M"
  using assms by arith

lemma padStart_hex:
  assumes "0 \<le> c" "c < 16 ^ n" "0 < n"
  shows "padStart n CHR ''0'' (radix_digits 16 c) =
           map (\<lambda>k. digit_char (c div 16 ^ (n - 1 - k) mod 16)) [0..<n]"
  using assms
proof (induction n arbitrary: c)
  case 0
  then show ?case by simp
next
  case (Suc n)
  show ?case
  proof (cases "c < 16")
    case True
    have "map (\<lambda>k. digit_char (c div 16 ^ (n - k) mod 16)) [0..<n]
        = map (\<lambda>k. CHR ''0'') [0..<n]"
    proof (rule map_cong)
      fix k assume "k \<in> set [0..<n]"
      then have "k < n" by simp
      with True Suc.prems(1) have "c div 16 ^ (n - k) = 0" by (intro small_div_power)
      then show "digit_char (c div 16 ^ (n - k) mod 16) = CHR ''0''"
        by (simp add: digit_char_0)
    qed simp
    then have "map (\<lambda>k. digit_char (c div 16 ^ (n - k) mod 16)) [0..<n] = replicate n CHR ''0''"
      by (simp only: map_replicate_const length_upt diff_zero)
    with True Suc.prems(1) show ?thesis
      by (simp add: padStart_def radix_digits_16_step(2))
  next
    case False
    then have n: "0 < n" using Suc.prems by (cases n) auto
    from Suc.prems have "c < 16 * 16 ^ n" by simp
    then have "c div 16 < 16 ^ n" by (rule div_16_less)
    moreover from Suc.prems have "0 \<le> c div 16" by simp
    ultimately have IH: "padStart n CHR ''0'' (radix_digits 16 (c div 16)) =
           map (\<lambda>k. digit_char (c div 16 div 16 ^ (n - 1 - k) mod 16)) [0..<n]"
      using n by (intro Suc.IH)
    have eq: "map (\<lambda>k. digit_char (c div 16 div 16 ^ (n - 1 - k) mod 16)) [0..<n]
        = map (\<lambda>k. digit_char (c div 16 ^ (n - k) mod 16)) [0..<n]"
    proof (rule map_cong)
      fix k assume "k \<in> set [0..<n]"
      then have "k < n" by simp
      then show "digit_char (c div 16 div 16 ^ (n - 1 - k) mod 16) = digit_char (c div 16 ^ (n - k) mod 16)"
        by (simp only: div_16_power_step)
    qed simp
    from False have step: "radix_digits 16 c = radix_digits 16 (c div 16) @ [digit_char (c mod 16)]"
      by (intro radix_digits_16_step(1)) simp
    have "padStart (Suc n) CHR ''0'' (radix_digits 16 c)
        = padStart n CHR ''0'' (radix_digits 16 (c div 16)) @ [digit_char (c mod 16)]"
      by (simp add: padStart_def step)
    also have "\<dots> = map (\<lambda>k. digit_char (c div 16 ^ (n - k) mod 16)) [0..<n] @ [digit_char (c mod 16)]"
      by (simp only: IH eq)
    finally show ?thesis by simp
  qed
qed

lemma upt_0_16: "[0..<16] = [0, 1, 2, 3, 4, 5, 6, 7, 8, 9, 10, 11, 12, 13, 14, 15]"
  by (simp add: upt_rec)

lemma upt_0_8: "[0..<8] = [0, 1, 2, 3, 4, 5, 6, 7]"
  by (simp add: upt_rec)

lemma or_assign_simps:
  "or_assign [] 0 v = [v]"
  "or_assign [x] 0 v = [x OR v]"
  "or_assign [x] (Suc 0) v = [x, v]"
  "or_assign [x, y] (Suc 0) v = [x, y OR v]"
  by (simp_all add: or_assign_def)

lemma Hex_parse_16:
  assumes v: "\<And>k. k < 16 \<Longrightarrow> 0 \<le> v k \<and> v k < 16"
  shows "Hex_parse (map (\<lambda>k. digit_char (v k)) [0..<16]) =
    \<lparr>words = [push_bit 24 (word_of_int (16 * v 0 + v 1)) OR push_bit 16 (word_of_int (16 * v 2 + v 3))
                OR push_bit 8 (word_of_int (16 * v 4 + v 5)) OR word_of_int (16 * v 6 + v 7),
              push_bit 24 (word_of_int (16 * v 8 + v 9)) OR push_bit 16 (word_of_int (16 * v 10 + v 11))
                OR push_bit 8 (word_of_int (16 * v 12 + v 13)) OR word_of_int (16 * v 14 + v 15)],
      sigBytes = 8\<rparr>"
proof -
  have p: "parseInt16 [digit_char (v i), digit_char (v j)] = Some (16 * v i + v j)"
    if "i < 16" "j < 16" for i j
    using v [OF that(1)] v [OF that(2)] by (intro parseInt16_pair) auto
  show ?thesis
    unfolding Hex_parse_def upt_0_16
    by (simp add: upt_0_8 p or_assign_simps or.assoc)
qed

lemma nibbles_byte:
  fixes c a :: int
  assumes "0 < a"
  shows "16 * (c div (a * 16) mod 16) + c div a mod 16 = c div a mod 256"
proof -
  have "c div (a * 16) = c div a div 16"
    using assms by (simp add: zdiv_zmult2_eq)
  moreover have "16 * (y div 16 mod 16) + y mod 16 = y mod 256" for y :: int
    using zmod_zmult2_eq [of 16 y 16] by simp
  ultimately show ?thesis by simp
qed

lemma bytes_word:
  fixes x :: int
  shows "((x div 16777216 mod 256 * 256 + x div 65536 mod 256) * 256 + x div 256 mod 256) * 256
           + x mod 256 = x mod 4294967296"
proof -
  have 1: "x mod 4294967296 = 256 * (x div 256 mod 16777216) + x mod 256"
    using zmod_zmult2_eq [of 16777216 x 256] by simp
  have 2: "x div 256 mod 16777216 = 256 * (x div 65536 mod 65536) + x div 256 mod 256"
    using zmod_zmult2_eq [of 65536 "x div 256" 256] by (simp add: zdiv_zmult2_eq [symmetric])
  have 3: "x div 65536 mod 65536 = 256 * (x div 16777216 mod 256) + x div 65536 mod 256"
    using zmod_zmult2_eq [of 256 "x div 65536" 256] by (simp add: zdiv_zmult2_eq [symmetric])
  show ?thesis
    unfolding 1 2 3 by (simp add: algebra_simps)
qed

lemma uint_byte_of_word:
  assumes "s + 8 \<le> 32"
  shows "uint (drop_bit s (word_of_int x :: 32 word) AND 0xff) = x div 2 ^ s mod 256"
proof -
  have "uint (drop_bit s (word_of_int x :: 32 word) AND 0xff)
      = take_bit 8 (drop_bit s (take_bit 32 x))"
    by (simp add: uint_and unsigned_drop_bit_eq uint_word_of_int_eq take_bit_eq_mask mask_eq_exp_minus_1)
  also have "\<dots> = take_bit 8 (drop_bit s x)"
    using assms by (intro bit_eqI) (auto simp: bit_simps)
  also have "\<dots> = x div 2 ^ s mod 256"
    by (simp add: take_bit_eq_mod drop_bit_eq_div)
  finally show ?thesis .
qed

lemma word_of_bytes:
  fixes b0 b1 b2 b3 :: int
  assumes "0 \<le> b1" "b1 < 256" "0 \<le> b2" "b2 < 256" "0 \<le> b3" "b3 < 256"
  shows "push_bit 24 (word_of_int b0 :: 32 word) OR push_bit 16 (word_of_int b1)
           OR push_bit 8 (word_of_int b2) OR word_of_int b3
         = word_of_int (((b0 * 256 + b1) * 256 + b2) * 256 + b3)"
proof -
  have "word_of_int (((b0 * 256 + b1) * 256 + b2) * 256 + b3)
        = (word_of_int (push_bit 24 b0 OR push_bit 16 b1 OR push_bit 8 b2 OR b3) :: 32 word)"
    using assms by (simp only: or_bytes_eq_sum)
  also have "\<dots> = push_bit 24 (word_of_int b0) OR push_bit 16 (word_of_int b1)
           OR push_bit 8 (word_of_int b2) OR word_of_int b3"
    by (simp only: of_int_or_eq of_int_push_bit)
  finally show ?thesis by simp
qed

lemma word_of_four_bytes:
  fixes x :: int
  shows "push_bit 24 (word_of_int (x div 16777216 mod 256) :: 32 word)
           OR push_bit 16 (word_of_int (x div 65536 mod 256))
           OR push_bit 8 (word_of_int (x div 256 mod 256)) OR word_of_int (x mod 256)
         = word_of_int x"
proof -
  have "push_bit 24 (word_of_int (x div 16777216 mod 256) :: 32 word)
           OR push_bit 16 (word_of_int (x div 65536 mod 256))
           OR push_bit 8 (word_of_int (x div 256 mod 256)) OR word_of_int (x mod 256)
        = word_of_int (((x div 16777216 mod 256 * 256 + x div 65536 mod 256) * 256
             + x div 256 mod 256) * 256 + x mod 256)"
    by (rule word_of_bytes) simp_all
  also have "\<dots> = word_of_int (x mod 4294967296)"
    by (simp only: bytes_word)
  also have "\<dots> = (word_of_int x :: 32 word)"
    by (simp add: word_of_int_eq_iff take_bit_eq_mod)
  finally show ?thesis .
qed

lemma hi_div:
  fixes c :: int
  shows "c div 4294967296 div 256 = c div 1099511627776"
    "c div 4294967296 div 65536 = c div 281474976710656"
    "c div 4294967296 div 16777216 = c div 72057594037927936"
  using zdiv_zmult2_eq [of 256 c 4294967296] zdiv_zmult2_eq [of 65536 c 4294967296]
    zdiv_zmult2_eq [of 16777216 c 4294967296]
  by simp_all

lemma nibble_pair:
  fixes y :: int
  shows "16 * (y div 16 mod 16) + y mod 16 = y mod 256"
  using zmod_zmult2_eq [of 16 y 16] by simp

lemma counter_nibbles:
  fixes c :: int
  defines "v \<equiv> \<lambda>k::nat. c div 16 ^ (16 - 1 - k) mod 16"
  shows
    "16 * v 0 + v 1 = c div 72057594037927936 mod 256"
    "16 * v 2 + v 3 = c div 281474976710656 mod 256"
    "16 * v 4 + v 5 = c div 1099511627776 mod 256"
    "16 * v 6 + v 7 = c div 4294967296 mod 256"
    "16 * v 8 + v 9 = c div 16777216 mod 256"
    "16 * v 10 + v 11 = c div 65536 mod 256"
    "16 * v 12 + v 13 = c div 256 mod 256"
    "16 * v 14 + v 15 = c mod 256"
proof -
  have "v 0 = c div 72057594037927936 div 16 mod 16"
    using zdiv_zmult2_eq [of 16 c 72057594037927936] by (simp add: v_def)
  moreover have "v 1 = c div 72057594037927936 mod 16"
    by (simp add: v_def)
  ultimately show "16 * v 0 + v 1 = c div 72057594037927936 mod 256"
    by (simp only: nibble_pair)
  have "v 2 = c div 281474976710656 div 16 mod 16"
    using zdiv_zmult2_eq [of 16 c 281474976710656] by (simp add: v_def)
  moreover have "v 3 = c div 281474976710656 mod 16"
    by (simp add: v_def)
  ultimately show "16 * v 2 + v 3 = c div 281474976710656 mod 256"
    by (simp only: nibble_pair)
  have "v 4 = c div 1099511627776 div 16 mod 16"
    using zdiv_zmult2_eq [of 16 c 1099511627776] by (simp add: v_def)
  moreover have "v 5 = c div 1099511627776 mod 16"
    by (simp add: v_def)
  ultimately show "16 * v 4 + v 5 = c div 1099511627776 mod 256"
    by (simp only: nibble_pair)
  have "v 6 = c div 4294967296 div 16 mod 16"
    using zdiv_zmult2_eq [of 16 c 4294967296] by (simp add: v_def)
  moreover have "v 7 = c div 4294967296 mod 16"
    by (simp add: v_def)
  ultimately show "16 * v 6 + v 7 = c div 4294967296 mod 256"
    by (simp only: nibble_pair)
  have "v 8 = c div 16777216 div 16 mod 16"
    using zdiv_zmult2_eq [of 16 c 16777216] by (simp add: v_def)
  moreover have "v 9 = c div 16777216 mod 16"
    by (simp add: v_def)
  ultimately show "16 * v 8 + v 9 = c div 16777216 mod 256"
    by (simp only: nibble_pair)
  have "v 10 = c div 65536 div 16 mod 16"
    using zdiv_zmult2_eq [of 16 c 65536] by (simp add: v_def)
  moreover have "v 11 = c div 65536 mod 16"
    by (simp add: v_def)
  ultimately show "16 * v 10 + v 11 = c div 65536 mod 256"
    by (simp only: nibble_pair)
  have "v 12 = c div 256 div 16 mod 16"
    using zdiv_zmult2_eq [of 16 c 256] by (simp add: v_def)
  moreover have "v 13 = c div 256 mod 16"
    by (simp add: v_def)
  ultimately show "16 * v 12 + v 13 = c div 256 mod 256"
    by (simp only: nibble_pair)
  have "v 14 = c div 16 mod 16"
    using zdiv_zmult2_eq [of 16 c 1] by (simp add: v_def)
  moreover have "v 15 = c mod 16"
    by (simp add: v_def)
  ultimately show "16 * v 14 + v 15 = c mod 256"
    by (simp only: nibble_pair)
qed


lemma numberToWordArray_counter:
  assumes "0 \<le> c" "c < 2 ^ 64"
  shows "numberToWordArray (Num c) = \<lparr>words = [word_of_int (c div 2 ^ 32), word_of_int c], sigBytes = 8\<rparr>"
proof -
  define v where "v \<equiv> \<lambda>k::nat. c div 16 ^ (16 - 1 - k) mod 16"
  have "c < 16 ^ 16" using assms(2) by simp
  with assms(1) have pad: "padStart 16 CHR ''0'' (radix_digits 16 c) = map (\<lambda>k. digit_char (v k)) [0..<16]"
    unfolding v_def by (intro padStart_hex) simp_all
  have rng: "0 \<le> v k \<and> v k < 16" for k
    by (simp add: v_def)
  have nib:
    "16 * v 0 + v 1 = c div 72057594037927936 mod 256"
    "16 * v 2 + v 3 = c div 281474976710656 mod 256"
    "16 * v 4 + v 5 = c div 1099511627776 mod 256"
    "16 * v 6 + v 7 = c div 4294967296 mod 256"
    "16 * v 8 + v 9 = c div 16777216 mod 256"
    "16 * v 10 + v 11 = c div 65536 mod 256"
    "16 * v 12 + v 13 = c div 256 mod 256"
    "16 * v 14 + v 15 = c mod 256"
    unfolding v_def by (rule counter_nibbles)+
  have "numberToWordArray (Num c) = Hex_parse (map (\<lambda>k. digit_char (v k)) [0..<16])"
    using assms(1) by (simp add: numberToWordArray_def toString_def pad)
  also have "\<dots> = \<lparr>words = [word_of_int (c div 4294967296), word_of_int c], sigBytes = 8\<rparr>"
    unfolding Hex_parse_16 [of v, OF rng] nib
    using word_of_four_bytes [of c] word_of_four_bytes [of "c div 4294967296"]
    unfolding hi_div by (simp only:)
  finally show ?thesis by simp
qed

lemma uint_bytes_of_word:
  fixes x :: int
  shows "uint ((word_of_int x :: 32 word) AND 0xff) = x mod 256"
    "uint (drop_bit 8 (word_of_int x :: 32 word) AND 0xff) = x div 256 mod 256"
    "uint (drop_bit 16 (word_of_int x :: 32 word) AND 0xff) = x div 65536 mod 256"
    "uint (drop_bit 24 (word_of_int x :: 32 word) AND 0xff) = x div 16777216 mod 256"
  using uint_byte_of_word [of 0 x] uint_byte_of_word [of 8 x] uint_byte_of_word [of 16 x]
    uint_byte_of_word [of 24 x]
  by simp_all

lemma wordArrayToBytes_two_words:
  "wordArrayToBytes \<lparr>words = [word_of_int hi, word_of_int lo], sigBytes = 8\<rparr>
     = [hi div 16777216 mod 256, hi div 65536 mod 256, hi div 256 mod 256, hi mod 256,
        lo div 16777216 mod 256, lo div 65536 mod 256, lo div 256 mod 256, lo mod 256]"
  by (simp add: wordArrayToBytes_def upt_0_8 js_nth_def uint_bytes_of_word)

lemma spec_counterBytes_eq:
  "spec_counterBytes c =
     [c div 72057594037927936 mod 256, c div 281474976710656 mod 256,
      c div 1099511627776 mod 256, c div 4294967296 mod 256,
      c div 16777216 mod 256, c div 65536 mod 256, c div 256 mod 256, c mod 256]"
  by (simp add: spec_counterBytes_def be_bytes_def upt_0_8)

lemma wordArrayToBytes_counter:
  assumes "0 \<le> c" "c < 2 ^ 64"
  shows "wordArrayToBytes (numberToWordArray (Num c)) = spec_counterBytes c"
  unfolding numberToWordArray_counter [OF assms] spec_counterBytes_eq
  by (simp add: wordArrayToBytes_two_words hi_div)

subsection \<open>Decimal formatting\<close>

lemma js_rem_nonneg:
  assumes "0 \<le> a" "0 < b"
  shows "js_rem a b = a mod b"
  using assms by (cases "a = 0") (simp_all add: js_rem_def)

lemma decimal_digit_char:
  assumes "0 \<le> d" "d < 10"
  shows "digit_char d \<in> set ''0123456789''" and "int (of_char (digit_char d)) - 48 = d"
proof -
  from assms have "d < 16" by simp
  with assms(1) show "digit_char d \<in> set ''0123456789''"
    by (rule digit_cases) (use assms(2) in \<open>simp_all add: digit_char_def\<close>)
  from assms(1) \<open>d < 16\<close> show "int (of_char (digit_char d)) - 48 = d"
    by (rule digit_cases) (use assms(2) in \<open>simp_all add: digit_char_def\<close>)
qed

lemma radix_digits_10_step:
  "10 \<le> n \<Longrightarrow> radix_digits 10 n = radix_digits 10 (n div 10) @ [digit_char (n mod 10)]"
  "n < 10 \<Longrightarrow> radix_digits 10 n = [digit_char n]"
  by (subst radix_digits.simps, simp)+

lemma radix_digits_10_props:
  assumes "0 \<le> n"
  shows "set (radix_digits 10 n) \<subseteq> set ''0123456789''
         \<and> decimal_value (radix_digits 10 n) = n
         \<and> radix_digits 10 n \<noteq> []"
  using assms
proof (induction "nat n" arbitrary: n rule: less_induct)
  case less
  show ?case
  proof (cases "n < 10")
    case True
    with less.prems show ?thesis
      using decimal_digit_char [of n]
      by (simp add: radix_digits_10_step(2) decimal_value_def)
  next
    case False
    then have "nat (n div 10) < nat n" "0 \<le> n div 10" by auto
    then have IH: "set (radix_digits 10 (n div 10)) \<subseteq> set ''0123456789''"
      "decimal_value (radix_digits 10 (n div 10)) = n div 10"
      using less.hyps [of "n div 10"] by auto
    have d: "digit_char (n mod 10) \<in> set ''0123456789''"
      "int (of_char (digit_char (n mod 10))) - 48 = n mod 10"
      by (rule decimal_digit_char; simp)+
    have "decimal_value (radix_digits 10 (n div 10) @ [digit_char (n mod 10)])
        = decimal_value (radix_digits 10 (n div 10)) * 10 + n mod 10"
      by (simp add: decimal_value_def d(2))
    with IH d False show ?thesis
      by (simp add: radix_digits_10_step(1))
  qed
qed

lemma radix_digits_10_length:
  assumes "0 \<le> n" "n < 10 ^ k" "0 < k"
  shows "length (radix_digits 10 n) \<le> k"
  using assms
proof (induction k arbitrary: n)
  case 0
  then show ?case by simp
next
  case (Suc k)
  show ?case
  proof (cases "n < 10")
    case True
    then show ?thesis by (simp add: radix_digits_10_step(2))
  next
    case False
    then have k: "0 < k" using Suc.prems by (cases k) auto
    from Suc.prems have "n < 10 * 10 ^ k" by simp
    then have "n div 10 < 10 ^ k" by arith
    moreover from Suc.prems have "0 \<le> n div 10" by simp
    ultimately have "length (radix_digits 10 (n div 10)) \<le> k"
      using k by (intro Suc.IH)
    with False show ?thesis by (simp add: radix_digits_10_step(1))
  qed
qed

lemma decimal_value_replicate_0:
  "decimal_value (replicate k CHR ''0'' @ s) = decimal_value s"
proof -
  have "foldl (\<lambda>a c. a * 10 + (int (of_char c) - 48)) 0 (replicate k CHR ''0'') = 0"
    by (induction k) simp_all
  then show ?thesis by (simp add: decimal_value_def)
qed

lemma hotp_format:
  assumes "0 \<le> n" "n < 10 ^ d" "0 < d"
  shows "length (padStart d CHR ''0'' (toString 10 (Num n))) = d"
    and "set (padStart d CHR ''0'' (toString 10 (Num n))) \<subseteq> set ''0123456789''"
    and "decimal_value (padStart d CHR ''0'' (toString 10 (Num n))) = n"
proof -
  from assms(1) have s: "toString 10 (Num n) = radix_digits 10 n"
    by (simp add: toString_def)
  from assms have len: "length (radix_digits 10 n) \<le> d"
    by (rule radix_digits_10_length)
  from assms(1) have props: "set (radix_digits 10 n) \<subseteq> set ''0123456789''"
    "decimal_value (radix_digits 10 n) = n"
    using radix_digits_10_props by blast+
  from len show "length (padStart d CHR ''0'' (toString 10 (Num n))) = d"
    by (simp add: s padStart_def)
  from props(1) show "set (padStart d CHR ''0'' (toString 10 (Num n))) \<subseteq> set ''0123456789''"
    by (auto simp: s padStart_def)
  from props(2) show "decimal_value (padStart d CHR ''0'' (toString 10 (Num n))) = n"
    by (simp add: s padStart_def decimal_value_replicate_0)
qed

subsection \<open>The test configuration, evaluated\<close>

text \<open>The three hash functions on the message \<open>abc\<close> of FIPS 180-4.\<close>

lemma sha1_abc:
  "sha1 [97, 98, 99] =
     [169, 153, 62, 54, 71, 6, 129, 106, 186, 62, 37, 113, 120, 80, 194, 108, 156, 208, 216, 157]"
  by code_simp

lemma sha256_abc:
  "sha256 [97, 98, 99] =
     [186, 120, 22, 191, 143, 1, 207, 234, 65, 65, 64, 222, 93, 174, 34, 35, 176, 3, 97, 163,
      150, 23, 122, 156, 180, 16, 255, 97, 242, 0, 21, 173]"
  by code_simp

lemma sha512_abc:
  "sha512 [97, 98, 99] =
     [221, 175, 53, 161, 147, 97, 122, 186, 204, 65, 115, 73, 174, 32, 65, 49, 18, 230, 250, 78,
      137, 169, 126, 162, 10, 158, 238, 230, 75, 85, 211, 154, 33, 146, 153, 42, 39, 79, 193,
      168, 54, 186, 60, 35, 163, 254, 235, 189, 69, 77, 68, 35, 100, 60, 232, 14, 42, 154, 201,
      79, 165, 76, 164, 159]"
  by code_simp

lemma std_decode_rfc_secret: "std_base32_decode rfc_secret = Some rfc_key"
  by code_simp

lemma hotp_rfc4226_0:
  "hotp std_modules (rfc_otp 6) \<lparr>counter = Num 0\<rparr> = Inr ''755224''"
  by code_simp

lemma hotp_rfc4226_1:
  "hotp std_modules (rfc_otp 6) \<lparr>counter = Num 1\<rparr> = Inr ''287082''"
  by code_simp

lemma hotp_rfc4226_2:
  "hotp std_modules (rfc_otp 6) \<lparr>counter = Num 2\<rparr> = Inr ''359152''"
  by code_simp

lemma hotp_rfc4226_3:
  "hotp std_modules (rfc_otp 6) \<lparr>counter = Num 3\<rparr> = Inr ''969429''"
  by code_simp

lemma hotp_rfc4226_4:
  "hotp std_modules (rfc_otp 6) \<lparr>counter = Num 4\<rparr> = Inr ''338314''"
  by code_simp

lemma hotp_rfc4226_5:
  "hotp std_modules (rfc_otp 6) \<lparr>counter = Num 5\<rparr> = Inr ''254676''"
  by code_simp

lemma hotp_rfc4226_6:
  "hotp std_modules (rfc_otp 6) \<lparr>counter = Num 6\<rparr> = Inr ''287922''"
  by code_simp

lemma hotp_rfc4226_7:
  "hotp std_modules (rfc_otp 6) \<lparr>counter = Num 7\<rparr> = Inr ''162583''"
  by code_simp

lemma hotp_rfc4226_8:
  "hotp std_modules (rfc_otp 6) \<lparr>counter = Num 8\<rparr> = Inr ''399871''"
  by code_simp

lemma hotp_rfc4226_9:
  "hotp std_modules (rfc_otp 6) \<lparr>counter = Num 9\<rparr> = Inr ''520489''"
  by code_simp

lemma hotp_rfc6238_59:
  "hotp std_modules (rfc_otp 8) \<lparr>counter = Num 1\<rparr> = Inr ''94287082''"
  by code_simp

lemma hotp_rfc6238_1111111109:
  "hotp std_modules (rfc_otp 8) \<lparr>counter = Num 37037036\<rparr> = Inr ''07081804''"
  by code_simp

lemma hotp_rfc6238_1111111111:
  "hotp std_modules (rfc_otp 8) \<lparr>counter = Num 37037037\<rparr> = Inr ''14050471''"
  by code_simp

lemma hotp_rfc6238_1234567890:
  "hotp std_modules (rfc_otp 8) \<lparr>counter = Num 41152263\<rparr> = Inr ''89005924''"
  by code_simp

lemma hotp_rfc6238_2000000000:
  "hotp std_modules (rfc_otp 8) \<lparr>counter = Num 66666666\<rparr> = Inr ''69279037''"
  by code_simp

lemma hotp_rfc6238_20000000000:
  "hotp std_modules (rfc_otp 8) \<lparr>counter = Num 666666666\<rparr> = Inr ''65353130''"
  by code_simp



lemma rfc_decode: "base32_decode std_modules (secret (rfc_otp d)) = Some rfc_key"
  by (simp add: std_modules_def rfc_otp_def std_decode_rfc_secret)

lemma rfc_otp_sel:
  "algorithm (rfc_otp d) = ''SHA1''" "digits (rfc_otp d) = d" "secret (rfc_otp d) = rfc_secret"
  "period (rfc_otp d) = 30" "hash (rfc_otp d) = HmacSHA1"
  by (simp_all add: rfc_otp_def)

lemma rfc_encode: "std_base32_encode rfc_key = rfc_secret"
  by code_simp

lemma rfc_hmacBytes_0:
  "hotp_hmacBytes std_modules (rfc_otp 6) (Num 0) rfc_key =
     [204, 147, 207, 24, 80, 141, 148, 147, 76, 100, 182, 93, 139, 167, 102, 127, 183, 205, 228, 176]"
  by code_simp

lemma spec_offset_le: "spec_offset digest \<le> 15"
proof -
  have "last digest AND 15 \<le> 15"
    by (rule and_numeral_bounds) simp
  then show ?thesis unfolding spec_offset_def by linarith
qed

lemma setHash_Inr:
  assumes "setHash this = Inr this'"
  shows "this' = this\<lparr>hash := (if algorithm this = ''SHA1'' then HmacSHA1
                                  else if algorithm this = ''SHA256'' then HmacSHA256
                                  else HmacSHA512)\<rparr>"
  using assms by (auto simp: setHash_def split: if_splits)

lemma constructor_Inr:
  assumes "OTP_constructor m r opts = Inr this"
  shows "hash this = (if algorithm this = ''SHA1'' then HmacSHA1
                      else if algorithm this = ''SHA256'' then HmacSHA256
                      else HmacSHA512)"
  using setHash_Inr [OF assms [unfolded OTP_constructor_def]] by simp

lemma constructor_rfc:
  "OTP_constructor m r \<lparr>gen_algorithm = a, gen_digits = Some d, gen_period = p,
       gen_secret = Some rfc_secret\<rparr>
     = (if a = None \<or> a = Some ''SHA1''
        then Inr ((rfc_otp d)\<lparr>period := (case p of Some q \<Rightarrow> q | None \<Rightarrow> 30)\<rparr>)
        else OTP_constructor m r \<lparr>gen_algorithm = a, gen_digits = Some d, gen_period = p,
               gen_secret = Some rfc_secret\<rparr>)"
  by (auto simp: OTP_constructor_def setHash_def rfc_otp_def split: option.splits)

lemma totp_eq:
  "totp m now this options =
     (hotp m this \<lparr>counter = floor_div (case timestamp options of Some t \<Rightarrow> t | None \<Rightarrow> now)
         (case opt_period options of Some p \<Rightarrow> if p \<noteq> 0 then p else period this
          | None \<Rightarrow> period this)\<rparr>,
      case opt_period options of Some p \<Rightarrow> if p \<noteq> 0 then this\<lparr>period := p\<rparr> else this
      | None \<Rightarrow> this)"
  by (simp add: totp_def Let_def hotp_period_irrelevant split: option.split)

lemma totpVerify_eq:
  "totpVerify m now this options =
     (totpVerify_loop m this (code options)
        (case timestamp options of Some t \<Rightarrow> t | None \<Rightarrow> now)
        (case window options of Some w \<Rightarrow> w | None \<Rightarrow> 1)
        (- (case window options of Some w \<Rightarrow> w | None \<Rightarrow> 1)), this)"
  by (simp add: totpVerify_def Let_def)

lemma floor_real_div:
  assumes "0 < p"
  shows "Num (\<lfloor>real_of_int t / 1000 / real_of_int p\<rfloor> + i) = number_add (floor_div t p) i"
  using floor_div_pos [OF assms, of t] by simp

lemma hotp_decimal:
  assumes "base32_decode m (secret this) = Some decoded"
  shows "\<exists>n. 0 \<le> n \<and> n < 10 ^ digits this
           \<and> n = hotp_truncate (hotp_hmacBytes m this c decoded) mod 10 ^ digits this
           \<and> hotp m this \<lparr>counter = c\<rparr>
               = Inr (padStart (digits this) CHR ''0'' (toString 10 (Num n)))"
proof -
  have "js_rem (hotp_truncate (hotp_hmacBytes m this c decoded)) (10 ^ digits this)
      = hotp_truncate (hotp_hmacBytes m this c decoded) mod 10 ^ digits this"
    by (rule js_rem_nonneg) (simp_all add: hotp_truncate_bounds)
  with assms show ?thesis
    by (simp add: hotp_eq)
qed

lemma spec_binCode_rfc_0:
  "spec_binCode [204, 147, 207, 24, 80, 141, 148, 147, 76, 100, 182, 93, 139, 167, 102, 127,
     183, 205, 228, 176] = 1284755224"
  by code_simp

lemma decimal_value_padStart:
  assumes "0 \<le> n"
  shows "decimal_value (padStart d CHR ''0'' (toString 10 (Num n))) = n"
  using assms radix_digits_10_props [of n]
  by (simp add: padStart_def toString_def decimal_value_replicate_0)

lemma totp_rfc6238_59:
  "fst (totp std_modules now (rfc_otp 8) \<lparr>opt_period = None, timestamp = Some (59 * 1000)\<rparr>)
     = Inr ''94287082''"
  by (simp add: totp_eq floor_div_def rfc_otp_sel hotp_rfc6238_59)

lemma totp_rfc6238_1111111109:
  "fst (totp std_modules now (rfc_otp 8) \<lparr>opt_period = None, timestamp = Some (1111111109 * 1000)\<rparr>)
     = Inr ''07081804''"
  by (simp add: totp_eq floor_div_def rfc_otp_sel hotp_rfc6238_1111111109)

lemma totp_rfc6238_1111111111:
  "fst (totp std_modules now (rfc_otp 8) \<lparr>opt_period = None, timestamp = Some (1111111111 * 1000)\<rparr>)
     = Inr ''14050471''"
  by (simp add: totp_eq floor_div_def rfc_otp_sel hotp_rfc6238_1111111111)

lemma totp_rfc6238_1234567890:
  "fst (totp std_modules now (rfc_otp 8) \<lparr>opt_period = None, timestamp = Some (1234567890 * 1000)\<rparr>)
     = Inr ''89005924''"
  by (simp add: totp_eq floor_div_def rfc_otp_sel hotp_rfc6238_1234567890)

lemma totp_rfc6238_2000000000:
  "fst (totp std_modules now (rfc_otp 8) \<lparr>opt_period = None, timestamp = Some (2000000000 * 1000)\<rparr>)
     = Inr ''69279037''"
  by (simp add: totp_eq floor_div_def rfc_otp_sel hotp_rfc6238_2000000000)

lemma totp_rfc6238_20000000000:
  "fst (totp std_modules now (rfc_otp 8) \<lparr>opt_period = None, timestamp = Some (20000000000 * 1000)\<rparr>)
     = Inr ''65353130''"
  by (simp add: totp_eq floor_div_def rfc_otp_sel hotp_rfc6238_20000000000)

subsection \<open>Counters and doubles\<close>

lemma bit_width_le:
  assumes "n < 2 ^ k"
  shows "bit_width n \<le> k"
  using assms
proof (induction k arbitrary: n)
  case 0
  then show ?case by (subst bit_width.simps) simp
next
  case (Suc k)
  show ?case
  proof (cases "n \<le> 0")
    case True
    then show ?thesis by (subst bit_width.simps) simp
  next
    case False
    from Suc.prems have "n < 2 * 2 ^ k" by simp
    then have "n div 2 < 2 ^ k" by arith
    then have "bit_width (n div 2) \<le> k" by (rule Suc.IH)
    with False show ?thesis by (subst bit_width.simps) simp
  qed
qed

lemma number_of_integer_exact:
  assumes "0 \<le> c" and "c < 2 ^ 53"
  shows "number_of_integer c = Num c"
proof -
  from assms(2) have "bit_width c \<le> 53" by (rule bit_width_le)
  then have e: "bit_width c - 53 = 0" by simp
  from assms have abs: "\<bar>c\<bar> = c" by simp
  have r: "round_to_double c = c"
    by (simp add: round_to_double_def e)
  have "c < 2 ^ 1024"
  proof -
    have "(2::int) ^ 53 \<le> 2 ^ 1024" by (rule power_increasing) simp_all
    with assms(2) show ?thesis by linarith
  qed
  then have big: "\<not> 2 ^ 1024 \<le> c" by simp
  have s: "sgn c * c = c"
    using mult_sgn_abs [of c] by (simp only: abs)
  show ?thesis
    unfolding number_of_integer_def abs r s using big by (simp only: if_False)
qed

lemma number_of_integer_2_53_1: "number_of_integer 9007199254740993 = Num 9007199254740992"
  by code_simp

lemma counter_bytes_2_53:
  "wordArrayToBytes (numberToWordArray (Num 9007199254740992)) = [0, 32, 0, 0, 0, 0, 0, 0]"
  by code_simp

lemma spec_counterBytes_2_53_1:
  "spec_counterBytes 9007199254740993 = [0, 32, 0, 0, 0, 0, 0, 1]"
  by code_simp

lemma hotp_rfc_2_53:
  "hotp std_modules (rfc_otp 6) \<lparr>counter = Num 9007199254740992\<rparr> = Inr ''860690''"
  by code_simp

lemma spec_code_2_53_1:
  "spec_binCode (hmac sha1 64 (map uint rfc_key) [0, 32, 0, 0, 0, 0, 0, 1]) mod 10 ^ 6 = 354518"
  by code_simp

lemma rfc_hmacBytes_safe_max:
  "length (hotp_hmacBytes std_modules (rfc_otp 6) (Num 9007199254740991) rfc_key) = 20"
  by code_simp

lemma hotp_rfc_safe_max:
  "hotp std_modules (rfc_otp 6) \<lparr>counter = Num 9007199254740991\<rparr> = Inr ''891307''"
  by code_simp

section \<open>Properties of the engine\<close>

text \<open>
  C1. With the secret that is the base32 text of the ASCII bytes \<open>12345678901234567890\<close>
  and algorithm SHA1: \<open>hotp\<close> with 6 digits returns, for the counters 0 to 9, the ten
  codes of RFC 4226; \<open>totp\<close> with 8 digits and the default period 30 returns, for the six
  timestamps of RFC 6238 (seconds, passed as milliseconds), its six codes.
\<close>

theorem rfc_test_vectors:
  "std_base32_encode (map of_char ''12345678901234567890'') = rfc_secret
   \<and> OTP_constructor std_modules r
         \<lparr>gen_algorithm = Some ''SHA1'', gen_digits = Some 6, gen_period = None,
          gen_secret = Some rfc_secret\<rparr> = Inr (rfc_otp 6)
   \<and> hotp std_modules (rfc_otp 6) \<lparr>counter = Num 0\<rparr> = Inr ''755224''
   \<and> hotp std_modules (rfc_otp 6) \<lparr>counter = Num 1\<rparr> = Inr ''287082''
   \<and> hotp std_modules (rfc_otp 6) \<lparr>counter = Num 2\<rparr> = Inr ''359152''
   \<and> hotp std_modules (rfc_otp 6) \<lparr>counter = Num 3\<rparr> = Inr ''969429''
   \<and> hotp std_modules (rfc_otp 6) \<lparr>counter = Num 4\<rparr> = Inr ''338314''
   \<and> hotp std_modules (rfc_otp 6) \<lparr>counter = Num 5\<rparr> = Inr ''254676''
   \<and> hotp std_modules (rfc_otp 6) \<lparr>counter = Num 6\<rparr> = Inr ''287922''
   \<and> hotp std_modules (rfc_otp 6) \<lparr>counter = Num 7\<rparr> = Inr ''162583''
   \<and> hotp std_modules (rfc_otp 6) \<lparr>counter = Num 8\<rparr> = Inr ''399871''
   \<and> hotp std_modules (rfc_otp 6) \<lparr>counter = Num 9\<rparr> = Inr ''520489''
   \<and> OTP_constructor std_modules r
         \<lparr>gen_algorithm = Some ''SHA1'', gen_digits = Some 8, gen_period = None,
          gen_secret = Some rfc_secret\<rparr> = Inr (rfc_otp 8)
   \<and> period (rfc_otp 8) = 30
   \<and> fst (totp std_modules now (rfc_otp 8) \<lparr>opt_period = None, timestamp = Some (59 * 1000)\<rparr>)
       = Inr ''94287082''
   \<and> fst (totp std_modules now (rfc_otp 8) \<lparr>opt_period = None, timestamp = Some (1111111109 * 1000)\<rparr>)
       = Inr ''07081804''
   \<and> fst (totp std_modules now (rfc_otp 8) \<lparr>opt_period = None, timestamp = Some (1111111111 * 1000)\<rparr>)
       = Inr ''14050471''
   \<and> fst (totp std_modules now (rfc_otp 8) \<lparr>opt_period = None, timestamp = Some (1234567890 * 1000)\<rparr>)
       = Inr ''89005924''
   \<and> fst (totp std_modules now (rfc_otp 8) \<lparr>opt_period = None, timestamp = Some (2000000000 * 1000)\<rparr>)
       = Inr ''69279037''
   \<and> fst (totp std_modules now (rfc_otp 8) \<lparr>opt_period = None, timestamp = Some (20000000000 * 1000)\<rparr>)
       = Inr ''65353130''"
proof -
  have enc: "std_base32_encode (map of_char ''12345678901234567890'') = rfc_secret"
    using rfc_encode by (simp only: rfc_key_def)
  have c6: "OTP_constructor std_modules r
         \<lparr>gen_algorithm = Some ''SHA1'', gen_digits = Some 6, gen_period = None,
          gen_secret = Some rfc_secret\<rparr> = Inr (rfc_otp 6)"
    and c8: "OTP_constructor std_modules r
         \<lparr>gen_algorithm = Some ''SHA1'', gen_digits = Some 8, gen_period = None,
          gen_secret = Some rfc_secret\<rparr> = Inr (rfc_otp 8)"
    by (simp_all add: constructor_rfc rfc_otp_def)
  show ?thesis
    by (intro conjI enc c6 c8 rfc_otp_sel(4)
          hotp_rfc4226_0 hotp_rfc4226_1 hotp_rfc4226_2 hotp_rfc4226_3 hotp_rfc4226_4 hotp_rfc4226_5 hotp_rfc4226_6 hotp_rfc4226_7 hotp_rfc4226_8 hotp_rfc4226_9
          totp_rfc6238_59 totp_rfc6238_1111111109 totp_rfc6238_1111111111 totp_rfc6238_1234567890 totp_rfc6238_2000000000 totp_rfc6238_20000000000)
qed

text \<open>
  C2, as stated: "for every 64-bit unsigned counter, hotp computes its code from the
  HMAC digest of the 8-byte big-endian counter". The counter is a JavaScript number, and
  a double does not hold every 64-bit integer: for the counter \<open>2 ^ 53 + 1\<close> the program
  receives the number \<open>2 ^ 53\<close>, hashes the bytes of \<open>2 ^ 53\<close> and returns \<open>860690\<close>, while
  the digest of the eight bytes of \<open>2 ^ 53 + 1\<close> gives the code \<open>354518\<close>.
\<close>

theorem hotp_64_bit_counter_counterexample:
  "number_of_integer 9007199254740993 = Num 9007199254740992
   \<and> wordArrayToBytes (numberToWordArray (number_of_integer 9007199254740993))
       = [0, 32, 0, 0, 0, 0, 0, 0]
   \<and> spec_counterBytes 9007199254740993 = [0, 32, 0, 0, 0, 0, 0, 1]
   \<and> hotp std_modules (rfc_otp 6) \<lparr>counter = number_of_integer 9007199254740993\<rparr>
       = Inr ''860690''
   \<and> spec_binCode (hmac sha1 64 (map uint rfc_key) (spec_counterBytes 9007199254740993))
         mod 10 ^ 6 = 354518"
  by (simp only: number_of_integer_2_53_1 counter_bytes_2_53 spec_counterBytes_2_53_1
        hotp_rfc_2_53 spec_code_2_53_1 simp_thms)

text \<open>
  C2, amended: for every instance and every counter that a JavaScript number holds
  exactly, \<open>0 \<le> c < 2 ^ 53\<close>, \<open>hotp\<close> hashes the eight big-endian bytes of the counter
  and derives its code by dynamic truncation: with the offset the low nibble of the last
  digest byte, the four bytes from the offset, the first masked by \<open>0x7F\<close>, combined
  big-endian, give a non-negative 31-bit \<open>binCode\<close>, and the string returned is the decimal
  rendering of \<open>binCode mod 10 ^ digits\<close>. (The digest has at least the 20 bytes of the
  shortest of the three hash functions.)
\<close>

theorem hotp_dynamic_truncation_exact_counter:
  assumes "base32_decode m (secret this) = Some decoded"
    and "0 \<le> c" and "c < 2 ^ 53"
    and "20 \<le> length (hotp_hmacBytes m this (Num c) decoded)"
  shows "number_of_integer c = Num c
    \<and> numberToWordArray (Num c)
           = \<lparr>words = [word_of_int (c div 2 ^ 32), word_of_int c], sigBytes = 8\<rparr>
    \<and> wordArrayToBytes (numberToWordArray (Num c)) = spec_counterBytes c
    \<and> hotp_hmacBytes m this (Num c) decoded
        = wordArrayToBytes (apply_hash m (hash this) (numberToWordArray (Num c))
            (WordArray_create decoded))
    \<and> 0 \<le> spec_binCode (hotp_hmacBytes m this (Num c) decoded)
    \<and> spec_binCode (hotp_hmacBytes m this (Num c) decoded) < 2 ^ 31
    \<and> hotp m this \<lparr>counter = Num c\<rparr>
        = Inr (padStart (digits this) CHR ''0'' (toString 10
            (Num (spec_binCode (hotp_hmacBytes m this (Num c) decoded) mod 10 ^ digits this))))
    \<and> decimal_value (padStart (digits this) CHR ''0'' (toString 10
            (Num (spec_binCode (hotp_hmacBytes m this (Num c) decoded) mod 10 ^ digits this))))
        = spec_binCode (hotp_hmacBytes m this (Num c) decoded) mod 10 ^ digits this"
proof -
  let ?digest = "hotp_hmacBytes m this (Num c) decoded"
  have "(2::int) ^ 53 \<le> 2 ^ 64" by (rule power_increasing) simp_all
  with assms(3) have c64: "c < 2 ^ 64" by linarith
  have exact: "number_of_integer c = Num c"
    using assms(2,3) by (rule number_of_integer_exact)
  have bytes: "\<forall>b\<in>set ?digest. 0 \<le> b \<and> b < 256"
    unfolding hotp_hmacBytes_def by (rule wordArrayToBytes_range)
  have "spec_offset ?digest + 3 < length ?digest"
    using spec_offset_le [of ?digest] assms(4) by simp
  with bytes have tr: "hotp_truncate ?digest = spec_binCode ?digest"
    and nonneg: "0 \<le> spec_binCode ?digest" and less: "spec_binCode ?digest < 2 ^ 31"
    by (rule hotp_truncate_eq)+
  have rem: "js_rem (spec_binCode ?digest) (10 ^ digits this) = spec_binCode ?digest mod 10 ^ digits this"
    using nonneg by (rule js_rem_nonneg) simp
  have h: "hotp m this \<lparr>counter = Num c\<rparr>
        = Inr (padStart (digits this) CHR ''0'' (toString 10
            (Num (spec_binCode ?digest mod 10 ^ digits this))))"
    using assms(1) by (simp add: hotp_eq tr rem)
  have dv: "decimal_value (padStart (digits this) CHR ''0'' (toString 10
            (Num (spec_binCode ?digest mod 10 ^ digits this))))
        = spec_binCode ?digest mod 10 ^ digits this"
    by (rule decimal_value_padStart) simp
  from exact numberToWordArray_counter [OF assms(2) c64] wordArrayToBytes_counter [OF assms(2) c64]
    nonneg less h dv
  show ?thesis
    by (simp only: hotp_hmacBytes_def simp_thms)
qed

theorem hotp_dynamic_truncation_exact_counter_witness:
  "20 \<le> length (hotp_hmacBytes std_modules (rfc_otp 6) (Num 0) rfc_key)
   \<and> spec_binCode (hotp_hmacBytes std_modules (rfc_otp 6) (Num 0) rfc_key) = 1284755224
   \<and> padStart 6 CHR ''0'' (toString 10 (Num (1284755224 mod 10 ^ 6))) = ''755224''
   \<and> (0::int) \<le> 9007199254740991 \<and> (9007199254740991::int) < 2 ^ 53
   \<and> 20 \<le> length (hotp_hmacBytes std_modules (rfc_otp 6) (Num 9007199254740991) rfc_key)
   \<and> number_of_integer 9007199254740991 = Num 9007199254740991
   \<and> wordArrayToBytes (numberToWordArray (Num 9007199254740991))
       = spec_counterBytes 9007199254740991
   \<and> decimal_value ''891307''
       = spec_binCode (hotp_hmacBytes std_modules (rfc_otp 6) (Num 9007199254740991) rfc_key)
           mod 10 ^ 6"
proof -
  have len: "20 \<le> length (hotp_hmacBytes std_modules (rfc_otp 6) (Num 0) rfc_key)"
    by (simp add: rfc_hmacBytes_0)
  have bc: "spec_binCode (hotp_hmacBytes std_modules (rfc_otp 6) (Num 0) rfc_key) = 1284755224"
    by (simp only: rfc_hmacBytes_0 spec_binCode_rfc_0)
  from hotp_dynamic_truncation_exact_counter [OF rfc_decode [of 6] _ _ len]
  have "hotp std_modules (rfc_otp 6) \<lparr>counter = Num 0\<rparr>
      = Inr (padStart (digits (rfc_otp 6)) CHR ''0'' (toString 10
          (Num (spec_binCode (hotp_hmacBytes std_modules (rfc_otp 6) (Num 0) rfc_key)
             mod 10 ^ digits (rfc_otp 6)))))"
    by simp
  then have z: "padStart 6 CHR ''0'' (toString 10 (Num (1284755224 mod 10 ^ 6))) = ''755224''"
    unfolding bc rfc_otp_sel hotp_rfc4226_0 by simp
  have m1: "(0::int) \<le> 9007199254740991" and m2: "(9007199254740991::int) < 2 ^ 53"
    by simp_all
  have lenM: "20 \<le> length (hotp_hmacBytes std_modules (rfc_otp 6) (Num 9007199254740991) rfc_key)"
    by (simp add: rfc_hmacBytes_safe_max)
  note t = hotp_dynamic_truncation_exact_counter [OF rfc_decode [of 6] m1 m2 lenM]
  from t have ex: "number_of_integer 9007199254740991 = Num 9007199254740991"
    and cb: "wordArrayToBytes (numberToWordArray (Num 9007199254740991))
       = spec_counterBytes 9007199254740991"
    by blast+
  from t have "hotp std_modules (rfc_otp 6) \<lparr>counter = Num 9007199254740991\<rparr>
        = Inr (padStart (digits (rfc_otp 6)) CHR ''0'' (toString 10
            (Num (spec_binCode (hotp_hmacBytes std_modules (rfc_otp 6) (Num 9007199254740991) rfc_key)
               mod 10 ^ digits (rfc_otp 6)))))"
    by blast
  then have s: "padStart (digits (rfc_otp 6)) CHR ''0'' (toString 10
            (Num (spec_binCode (hotp_hmacBytes std_modules (rfc_otp 6) (Num 9007199254740991) rfc_key)
               mod 10 ^ digits (rfc_otp 6)))) = ''891307''"
    unfolding hotp_rfc_safe_max by simp
  from t have "decimal_value (padStart (digits (rfc_otp 6)) CHR ''0'' (toString 10
            (Num (spec_binCode (hotp_hmacBytes std_modules (rfc_otp 6) (Num 9007199254740991) rfc_key)
               mod 10 ^ digits (rfc_otp 6)))))
        = spec_binCode (hotp_hmacBytes std_modules (rfc_otp 6) (Num 9007199254740991) rfc_key)
            mod 10 ^ digits (rfc_otp 6)"
    by blast
  then have dv: "decimal_value ''891307''
       = spec_binCode (hotp_hmacBytes std_modules (rfc_otp 6) (Num 9007199254740991) rfc_key)
           mod 10 ^ 6"
    unfolding rfc_otp_sel s [unfolded rfc_otp_sel] .
  from len bc z m1 m2 lenM ex cb dv show ?thesis
    by (intro conjI)
qed

text \<open>
  C3. For an instance with period \<open>p > 0\<close>, candidate \<open>s\<close>, timestamp \<open>t\<close> and window
  \<open>w\<close>, \<open>totpVerify\<close> returns true if and only if some integer \<open>i\<close> of \<open>[-w, +w]\<close> has
  \<open>hotp\<close> at counter \<open>floor(t / 1000 / p) + i\<close> equal to \<open>s\<close>; when the secret decodes it
  returns exactly that truth value; \<open>w = 0\<close> checks the current step only, and a negative
  \<open>w\<close> gives false for every candidate.
\<close>

theorem totpVerify_window:
  assumes "0 < period this"
  shows "(fst (totpVerify m now this \<lparr>opt_period = po, timestamp = Some t, code = s, window = Some w\<rparr>)
            = Inr True
          \<longleftrightarrow> (\<exists>i\<in>{- w..w}. hotp m this
                 \<lparr>counter = Num (\<lfloor>real_of_int t / 1000 / real_of_int (period this)\<rfloor> + i)\<rparr> = Inr s))
    \<and> (\<forall>decoded. base32_decode m (secret this) = Some decoded \<longrightarrow>
          fst (totpVerify m now this \<lparr>opt_period = po, timestamp = Some t, code = s, window = Some w\<rparr>)
            = Inr (\<exists>i\<in>{- w..w}. hotp m this
                 \<lparr>counter = Num (\<lfloor>real_of_int t / 1000 / real_of_int (period this)\<rfloor> + i)\<rparr> = Inr s))
    \<and> (fst (totpVerify m now this \<lparr>opt_period = po, timestamp = Some t, code = s, window = Some 0\<rparr>)
            = Inr True
          \<longleftrightarrow> hotp m this
                 \<lparr>counter = Num \<lfloor>real_of_int t / 1000 / real_of_int (period this)\<rfloor>\<rparr> = Inr s)
    \<and> (w < 0 \<longrightarrow>
          fst (totpVerify m now this \<lparr>opt_period = po, timestamp = Some t, code = s, window = Some w\<rparr>)
            = Inr False)"
proof -
  note fl = floor_real_div [OF assms]
  have neg: "totpVerify_loop m this s t w (- w) = Inr False" if "w < 0"
    using that by (subst totpVerify_loop.simps) simp
  have zero: "Num \<lfloor>real_of_int t / 1000 / real_of_int (period this)\<rfloor>
      = number_add (floor_div t (period this)) 0"
    using fl [of t 0] by simp
  show ?thesis
    unfolding fl zero
    by (simp add: totpVerify_eq totpVerify_loop_True_iff totpVerify_loop_decoded neg)
qed

theorem totpVerify_window_witness:
  "fst (totpVerify std_modules 0 (rfc_otp 6)
          \<lparr>opt_period = None, timestamp = Some 59000, code = ''755224'', window = Some 1\<rparr>) = Inr True
   \<and> fst (totpVerify std_modules 0 (rfc_otp 6)
          \<lparr>opt_period = None, timestamp = Some 59000, code = ''755224'', window = Some 0\<rparr>) = Inr False
   \<and> fst (totpVerify std_modules 0 (rfc_otp 6)
          \<lparr>opt_period = None, timestamp = Some 59000, code = ''755224'', window = Some (- 1)\<rparr>) = Inr False"
proof -
  have p: "0 < period (rfc_otp 6)" by (simp add: rfc_otp_sel)
  have fl: "\<lfloor>real_of_int 59000 / 1000 / real_of_int (period (rfc_otp 6))\<rfloor> = 1"
    by (simp add: rfc_otp_sel)
  note w = totpVerify_window [OF p, where m = std_modules and now = 0 and po = None
        and t = 59000 and s = "''755224''", unfolded fl]
  have "\<exists>i\<in>{- 1..1}. hotp std_modules (rfc_otp 6) \<lparr>counter = Num (1 + i)\<rparr> = Inr ''755224''"
    by (rule bexI [of _ "- 1"]) (simp_all add: hotp_rfc4226_0)
  then have "fst (totpVerify std_modules 0 (rfc_otp 6)
          \<lparr>opt_period = None, timestamp = Some 59000, code = ''755224'', window = Some 1\<rparr>) = Inr True"
    using w [of 1] by blast
  moreover have "fst (totpVerify std_modules 0 (rfc_otp 6)
          \<lparr>opt_period = None, timestamp = Some 59000, code = ''755224'', window = Some 0\<rparr>) = Inr False"
    using w [of 0] rfc_decode [of 6] by (simp add: hotp_rfc4226_1)
  moreover have "fst (totpVerify std_modules 0 (rfc_otp 6)
          \<lparr>opt_period = None, timestamp = Some 59000, code = ''755224'', window = Some (- 1)\<rparr>) = Inr False"
    using w [of "- 1"] by simp
  ultimately show ?thesis by blast
qed

text \<open>
  C4. For every instance and counter, \<open>hotpVerify\<close> returns true exactly when the
  candidate is string-equal to the code \<open>hotp\<close> returns for that counter: it is true for
  that code itself and false for the code of the next counter whenever the two differ.
  (\<open>hotp\<close> returns a code exactly when the codec decodes the secret.)
\<close>

theorem hotpVerify_iff_code_equal:
  assumes "base32_decode m (secret this) = Some decoded"
  shows "\<exists>otp. hotp m this \<lparr>counter = c\<rparr> = Inr otp
           \<and> (\<forall>s. hotpVerify m this \<lparr>counter = c, hotp_code = s\<rparr> = Inr (otp = s))
           \<and> hotpVerify m this \<lparr>counter = c, hotp_code = otp\<rparr> = Inr True
           \<and> (\<forall>otp'. hotp m this \<lparr>counter = number_add c 1\<rparr> = Inr otp' \<and> otp' \<noteq> otp
                  \<longrightarrow> hotpVerify m this \<lparr>counter = c, hotp_code = otp'\<rparr> = Inr False)"
proof -
  from assms obtain otp where otp: "hotp m this \<lparr>counter = c\<rparr> = Inr otp"
    using hotp_returns by blast
  then have "hotpVerify m this \<lparr>counter = c, hotp_code = s\<rparr> = Inr (otp = s)" for s
    by (simp add: hotpVerify_def)
  with otp show ?thesis by auto
qed

theorem hotpVerify_iff_code_equal_witness:
  "hotpVerify std_modules (rfc_otp 6) \<lparr>counter = Num 0, hotp_code = ''755224''\<rparr> = Inr True
   \<and> hotpVerify std_modules (rfc_otp 6) \<lparr>counter = Num 0, hotp_code = ''287082''\<rparr> = Inr False"
  using hotpVerify_iff_code_equal [OF rfc_decode, of 6 "Num 0"]
  by (simp add: hotp_rfc4226_0 hotp_rfc4226_1)

text \<open>
  C5. For every instance with digits \<open>\<ge> 1\<close> and every counter, the string \<open>hotp\<close>
  returns, and hence the one \<open>totp\<close> returns, has length exactly \<open>digits\<close>: the decimal
  digits of the code, preceded by zeros. (A code is returned exactly when the codec
  decodes the secret.)
\<close>

theorem hotp_length_is_digits:
  assumes "base32_decode m (secret this) = Some decoded" and "1 \<le> digits this"
  shows "(\<exists>s n k. hotp m this \<lparr>counter = c\<rparr> = Inr s \<and> length s = digits this
             \<and> set s \<subseteq> set ''0123456789''
             \<and> 0 \<le> n \<and> s = replicate k CHR ''0'' @ radix_digits 10 n)
       \<and> (\<exists>s n k. fst (totp m now this options) = Inr s \<and> length s = digits this
             \<and> set s \<subseteq> set ''0123456789''
             \<and> 0 \<le> n \<and> s = replicate k CHR ''0'' @ radix_digits 10 n)"
proof -
  have *: "\<exists>s n k. hotp m this \<lparr>counter = c\<rparr> = Inr s \<and> length s = digits this
             \<and> set s \<subseteq> set ''0123456789''
             \<and> 0 \<le> n \<and> s = replicate k CHR ''0'' @ radix_digits 10 n" for c
  proof -
    from assms(1) obtain n where n: "0 \<le> n" "n < 10 ^ digits this"
      and h: "hotp m this \<lparr>counter = c\<rparr> = Inr (padStart (digits this) CHR ''0'' (toString 10 (Num n)))"
      using hotp_decimal by blast
    from assms(2) have d: "0 < digits this" by simp
    have "length (padStart (digits this) CHR ''0'' (toString 10 (Num n))) = digits this"
      and "set (padStart (digits this) CHR ''0'' (toString 10 (Num n))) \<subseteq> set ''0123456789''"
      by (rule hotp_format [OF n d])+
    moreover from n(1) have "padStart (digits this) CHR ''0'' (toString 10 (Num n))
        = replicate (digits this - length (radix_digits 10 n)) CHR ''0'' @ radix_digits 10 n"
      by (simp add: padStart_def toString_def)
    ultimately show ?thesis using h n(1) by blast
  qed
  show ?thesis
    by (simp only: totp_eq fst_conv) (intro conjI *)
qed

theorem hotp_length_is_digits_witness:
  "base32_decode std_modules (secret (rfc_otp 6)) = Some rfc_key
   \<and> 1 \<le> digits (rfc_otp 6)
   \<and> hotp std_modules (rfc_otp 6) \<lparr>counter = Num 0\<rparr> = Inr ''755224''
   \<and> length ''755224'' = digits (rfc_otp 6)"
proof -
  have "length ''755224'' = digits (rfc_otp 6)" and "1 \<le> digits (rfc_otp 6)"
    using hotp_length_is_digits [OF rfc_decode, where d1 = 6 and c = "Num 0"]
    by (simp_all add: rfc_otp_sel hotp_rfc4226_0)
  with rfc_decode [of 6] hotp_rfc4226_0 show ?thesis by simp
qed




text \<open>
  C7, as stated: "when totp is called with a period override, the override replaces the
  stored period". It fails for the override 0: the stored period stays 30 and the code
  is the one of counter 1, computed with period 30.
\<close>

theorem totp_override_replaces_period_counterexample:
  "period (snd (totp std_modules 0 (rfc_otp 6) \<lparr>opt_period = Some 0, timestamp = Some 59000\<rparr>)) = 30
   \<and> fst (totp std_modules 0 (rfc_otp 6) \<lparr>opt_period = Some 0, timestamp = Some 59000\<rparr>)
       = Inr ''287082''"
  by (simp add: totp_eq floor_div_def hotp_rfc4226_1 rfc_otp_sel)

text \<open>
  C7, amended: a nonzero period override replaces the stored period. It is used for this
  call, returned by the period getter afterwards, and used by the \<open>totp\<close> and
  \<open>totpVerify\<close> calls that follow; no \<open>totp\<close> call changes algorithm, digits, secret (or
  the hash function).
\<close>

theorem totp_nonzero_override_persists:
  assumes "p \<noteq> 0"
  shows "snd (totp m now this \<lparr>opt_period = Some p, timestamp = ts\<rparr>) = this\<lparr>period := p\<rparr>
    \<and> period (snd (totp m now this \<lparr>opt_period = Some p, timestamp = ts\<rparr>)) = p
    \<and> fst (totp m now this \<lparr>opt_period = Some p, timestamp = ts\<rparr>)
        = hotp m this \<lparr>counter = floor_div (case ts of Some t \<Rightarrow> t | None \<Rightarrow> now) p\<rparr>
    \<and> totp m now2 (snd (totp m now this \<lparr>opt_period = Some p, timestamp = ts\<rparr>))
          \<lparr>opt_period = None, timestamp = ts2\<rparr>
        = (hotp m this \<lparr>counter = floor_div (case ts2 of Some t \<Rightarrow> t | None \<Rightarrow> now2) p\<rparr>,
           this\<lparr>period := p\<rparr>)
    \<and> (fst (totpVerify m now2 (snd (totp m now this \<lparr>opt_period = Some p, timestamp = ts\<rparr>))
              \<lparr>opt_period = po, timestamp = Some t2, code = s, window = Some w\<rparr>) = Inr True
         \<longleftrightarrow> (\<exists>i\<in>{- w..w}. hotp m this \<lparr>counter = number_add (floor_div t2 p) i\<rparr> = Inr s))
    \<and> algorithm (snd (totp m now this options)) = algorithm this
    \<and> digits (snd (totp m now this options)) = digits this
    \<and> secret (snd (totp m now this options)) = secret this
    \<and> hash (snd (totp m now this options)) = hash this"
  using assms
  by (simp add: totp_eq totpVerify_eq totpVerify_loop_True_iff hotp_period_irrelevant
        split: option.split)

theorem totp_nonzero_override_persists_witness:
  "(60::int) \<noteq> 0
   \<and> period (snd (totp std_modules 0 (rfc_otp 6) \<lparr>opt_period = Some 60, timestamp = Some 59000\<rparr>)) = 60
   \<and> fst (totp std_modules 0 (rfc_otp 6) \<lparr>opt_period = Some 60, timestamp = Some 59000\<rparr>)
       = Inr ''755224''"
  using totp_nonzero_override_persists [where p = 60 and m = std_modules and now = 0
      and this = "rfc_otp 6" and ts = "Some 59000"]
  by (simp add: floor_div_def hotp_rfc4226_0)

text \<open>
  C8. For fixed secret, algorithm and digits, \<open>hotp\<close> at a counter returns the same
  result on any two independently constructed instances, whatever their periods and the
  random draws of their constructors, and whatever \<open>totp\<close> calls came before.
\<close>

theorem hotp_deterministic:
  assumes "OTP_constructor m r1 o1 = Inr i1" and "OTP_constructor m r2 o2 = Inr i2"
    and "secret i1 = secret i2" and "algorithm i1 = algorithm i2" and "digits i1 = digits i2"
  shows "hotp m i1 \<lparr>counter = c\<rparr> = hotp m i2 \<lparr>counter = c\<rparr>
         \<and> hotp m (snd (totp m now i1 options)) \<lparr>counter = c\<rparr> = hotp m i2 \<lparr>counter = c\<rparr>"
proof -
  from assms(1,2,4) have "hash i1 = hash i2"
    by (simp add: constructor_Inr)
  with assms(3,5) have "hotp m i1 \<lparr>counter = c\<rparr> = hotp m i2 \<lparr>counter = c\<rparr>"
    by (simp add: hotp_eq hotp_hmacBytes_def split: option.split)
  then show ?thesis
    by (simp add: totp_eq hotp_period_irrelevant split: option.split)
qed

theorem hotp_deterministic_witness:
  "hotp std_modules (rfc_otp 6) \<lparr>counter = Num 1\<rparr>
     = hotp std_modules ((rfc_otp 6)\<lparr>period := 60\<rparr>) \<lparr>counter = Num 1\<rparr>"
  using hotp_deterministic [where m = std_modules and ?r1.0 = no_random
      and ?o1.0 = "\<lparr>gen_algorithm = None, gen_digits = Some 6, gen_period = None,
                  gen_secret = Some rfc_secret\<rparr>"
      and ?i1.0 = "rfc_otp 6" and ?r2.0 = "\<lparr>words = [1], sigBytes = 4\<rparr>"
      and ?o2.0 = "\<lparr>gen_algorithm = Some ''SHA1'', gen_digits = Some 6, gen_period = Some 60,
                  gen_secret = Some rfc_secret\<rparr>"
      and ?i2.0 = "(rfc_otp 6)\<lparr>period := 60\<rparr>" and c = "Num 1"]
  by (simp add: constructor_rfc rfc_otp_sel)

text \<open>
  C9. \<open>totpVerify\<close> ignores the period field of its options: for every supplied period
  the result is the same, the base counter comes from the stored period, and the instance
  (hence its period) is unchanged after the call; whereas \<open>totp\<close> stores a nonzero
  override.
\<close>

theorem totpVerify_ignores_period:
  "fst (totpVerify m now this (options\<lparr>opt_period := po\<rparr>)) = fst (totpVerify m now this options)
   \<and> snd (totpVerify m now this (options\<lparr>opt_period := po\<rparr>)) = this
   \<and> period (snd (totpVerify m now this (options\<lparr>opt_period := po\<rparr>))) = period this
   \<and> (fst (totpVerify m now this (options\<lparr>opt_period := po\<rparr>)) = Inr True
        \<longleftrightarrow> (\<exists>i\<in>{- (case window options of Some w \<Rightarrow> w | None \<Rightarrow> 1)
                    ..(case window options of Some w \<Rightarrow> w | None \<Rightarrow> 1)}.
               hotp m this \<lparr>counter = number_add
                   (floor_div (case timestamp options of Some t \<Rightarrow> t | None \<Rightarrow> now) (period this)) i\<rparr>
                 = Inr (code options)))
   \<and> (\<forall>p. po = Some p \<and> p \<noteq> 0
          \<longrightarrow> period (snd (totp m now this \<lparr>opt_period = po, timestamp = timestamp options\<rparr>)) = p)"
  by (simp add: totp_eq totpVerify_eq totpVerify_loop_True_iff)

theorem totpVerify_ignores_period_witness:
  "fst (totpVerify std_modules 0 (rfc_otp 6)
          \<lparr>opt_period = Some 60, timestamp = Some 59000, code = ''287082'', window = Some 0\<rparr>)
     = Inr True
   \<and> period (snd (totpVerify std_modules 0 (rfc_otp 6)
          \<lparr>opt_period = Some 60, timestamp = Some 59000, code = ''287082'', window = Some 0\<rparr>)) = 30
   \<and> period (snd (totp std_modules 0 (rfc_otp 6) \<lparr>opt_period = Some 60, timestamp = Some 59000\<rparr>)) = 60"
  using totpVerify_ignores_period [where m = std_modules and now = 0 and this = "rfc_otp 6"
      and options = "\<lparr>opt_period = None, timestamp = Some 59000, code = ''287082'', window = Some 0\<rparr>"
      and po = "Some 60"]
  by (auto simp add: floor_div_def hotp_rfc4226_1 rfc_otp_sel)

text \<open>
  C10. A period override of 0 does not replace the stored period: the call computes its
  counter from the stored period and leaves the instance, hence the period getter, as it
  was; it behaves as the call without an override.
\<close>

theorem totp_zero_override_ignored:
  "totp m now this \<lparr>opt_period = Some 0, timestamp = ts\<rparr>
     = (hotp m this \<lparr>counter = floor_div (case ts of Some t \<Rightarrow> t | None \<Rightarrow> now) (period this)\<rparr>, this)
   \<and> period (snd (totp m now this \<lparr>opt_period = Some 0, timestamp = ts\<rparr>)) = period this
   \<and> totp m now this \<lparr>opt_period = Some 0, timestamp = ts\<rparr>
       = totp m now this \<lparr>opt_period = None, timestamp = ts\<rparr>"
  by (simp add: totp_eq)

end
